theory Spec2Isabelle
  imports Complex_Main "HOL-Library.Log_Nat"
begin

section \<open>Python values\<close>

text \<open>
  The receipt processor (app.py) is a Flask application: a JSON body is validated,
  scored and the score is kept in the dictionary \<open>receipts\<close> under a fresh uuid.
  Python is dynamically typed, so the model keeps JSON values as one datatype and makes
  every exception a value of type \<open>exn\<close>.

  A Python \<open>str\<close> is modelled as a \<open>string\<close> whose characters are the code points
  below 256; the character classes below are the ones of Python 3 on that range.
\<close>

datatype pyfloat = Finite rat | PosInf | NegInf | NaN

datatype exn =
    ValueError string
  | KeyError string
  | TypeError
  | OverflowError
  | ZeroDivisionError

datatype json =
    JNull
  | JBool bool
  | JInt int
  | JFloat pyfloat
  | JStr string
  | JList "json list"
  | JDict "(string \<times> json) list"

text \<open>
  A dictionary is kept as the list of its entries and read with \<open>map_of\<close>: a key is
  bound to the value of its first entry in the list.
\<close>

type_synonym pydict = "(string \<times> json) list"

text \<open>Sequencing of computations that may raise: the first exception wins.\<close>

definition and_then :: "exn + 'a \<Rightarrow> ('a \<Rightarrow> exn + 'b) \<Rightarrow> exn + 'b" where
  "and_then m f = (case m of Inl e \<Rightarrow> Inl e | Inr x \<Rightarrow> f x)"

subsection \<open>Characters and strings\<close>

definition isspace :: "char \<Rightarrow> bool" where
  "isspace c = ((of_char c :: nat) \<in> {9, 10, 11, 12, 13, 28, 29, 30, 31, 32, 133, 160})"

text \<open>The class \<open>\d\<close> of the module re.\<close>

definition isdecimal :: "char \<Rightarrow> bool" where
  "isdecimal c = (48 \<le> (of_char c :: nat) \<and> (of_char c :: nat) \<le> 57)"

definition isalnum :: "char \<Rightarrow> bool" where
  "isalnum c =
     (let n = (of_char c :: nat)
      in 48 \<le> n \<and> n \<le> 57 \<or> 65 \<le> n \<and> n \<le> 90 \<or> 97 \<le> n \<and> n \<le> 122
         \<or> n \<in> {170, 178, 179, 181, 185, 186, 188, 189, 190}
         \<or> 192 \<le> n \<and> n \<le> 214 \<or> 216 \<le> n \<and> n \<le> 246 \<or> 248 \<le> n)"

text \<open>The class \<open>\w\<close> of the module re.\<close>

definition isword :: "char \<Rightarrow> bool" where
  "isword c = (isalnum c \<or> c = CHR ''_'')"

definition strip :: "string \<Rightarrow> string" where
  "strip s = rev (dropWhile isspace (rev (dropWhile isspace s)))"

text \<open>\<open>re.match(r"\S+", s)\<close>: the match is anchored at the start of the string.\<close>

definition re_match_nonspace :: "string \<Rightarrow> bool" where
  "re_match_nonspace s = (case s of [] \<Rightarrow> False | c # _ \<Rightarrow> \<not> isspace c)"

text \<open>
  \<open>re.match(r"^\d+\.\d{2}$", s)\<close>. In Python \<open>$\<close> matches at the end of the string and
  also just before a newline that ends the string.
\<close>

definition money_shape :: "string \<Rightarrow> bool" where
  "money_shape t =
     (takeWhile isdecimal t \<noteq> [] \<and>
      (case dropWhile isdecimal t of
         [p, d1, d2] \<Rightarrow> p = CHR ''.'' \<and> isdecimal d1 \<and> isdecimal d2
       | _ \<Rightarrow> False))"

definition re_match_money :: "string \<Rightarrow> bool" where
  "re_match_money s =
     (money_shape s \<or> (s \<noteq> [] \<and> last s = CHR 0x0A \<and> money_shape (butlast s)))"

text \<open>\<open>re.match(r"^[\w\s\-]+$", s)\<close>; a final newline is in the class already.\<close>

definition re_match_description :: "string \<Rightarrow> bool" where
  "re_match_description s =
     (s \<noteq> [] \<and> list_all (\<lambda>c. isword c \<or> isspace c \<or> c = CHR ''-'') s)"

text \<open>A regular expression applied to a value that is not a \<open>str\<close> raises TypeError.\<close>

definition re_match :: "(string \<Rightarrow> bool) \<Rightarrow> json \<Rightarrow> exn + bool" where
  "re_match p v = (case v of JStr s \<Rightarrow> Inr (p s) | _ \<Rightarrow> Inl TypeError)"

definition isinstance_str :: "json \<Rightarrow> bool" where
  "isinstance_str v = (case v of JStr _ \<Rightarrow> True | _ \<Rightarrow> False)"

definition isinstance_list :: "json \<Rightarrow> bool" where
  "isinstance_list v = (case v of JList _ \<Rightarrow> True | _ \<Rightarrow> False)"

definition isinstance_dict :: "json \<Rightarrow> bool" where
  "isinstance_dict v = (case v of JDict _ \<Rightarrow> True | _ \<Rightarrow> False)"

text \<open>The characters of a value known to be a \<open>str\<close> (formatting it, stripping it).\<close>

definition the_str :: "json \<Rightarrow> string" where
  "the_str v = (case v of JStr s \<Rightarrow> s | _ \<Rightarrow> [])"

text \<open>\<open>v[k]\<close> with a string key: only a dictionary can be subscripted so.\<close>

definition subscript :: "json \<Rightarrow> string \<Rightarrow> exn + json" where
  "subscript v k =
     (case v of
        JDict d \<Rightarrow> (case map_of d k of None \<Rightarrow> Inl (KeyError k) | Some x \<Rightarrow> Inr x)
      | _ \<Rightarrow> Inl TypeError)"

text \<open>
  The elements a \<open>for\<close> loop visits; \<open>len\<close> is their number. A \<open>str\<close> yields its
  characters, a dictionary its keys, any other value but a list is not iterable.
\<close>

definition py_iter :: "json \<Rightarrow> exn + json list" where
  "py_iter v =
     (case v of
        JList xs \<Rightarrow> Inr xs
      | JStr s \<Rightarrow> Inr (map (\<lambda>c. JStr [c]) s)
      | JDict d \<Rightarrow> Inr (map JStr (remdups (map fst d)))
      | _ \<Rightarrow> Inl TypeError)"

subsection \<open>Binary floating point\<close>

text \<open>
  A Python \<open>float\<close> is an IEEE 754 binary64 number: 53 significant bits, exponents from
  \<open>-1022\<close> to \<open>1023\<close>, results rounded to the nearest representable number, ties to the
  even significand, and infinity from \<open>2 ^ 1024\<close> on. \<open>Finite q\<close> is the number whose
  exact value is \<open>q\<close> (the sign of zero is not kept: nothing here reads it).
\<close>

definition round_half_even :: "rat \<Rightarrow> int" where
  "round_half_even q =
     (let f = \<lfloor>q\<rfloor>; d = q - of_int f
      in if d < 1 / 2 then f else if 1 / 2 < d then f + 1 else if even f then f else f + 1)"

text \<open>The exponent \<open>e\<close> with \<open>2 ^ e \<le> q < 2 ^ (e + 1)\<close>, for a positive \<open>q\<close>.\<close>

definition ilog2 :: "rat \<Rightarrow> int" where
  "ilog2 q =
     (case quotient_of q of (a, b) \<Rightarrow>
        let k = bitlen a - bitlen b in if 2 powi k \<le> q then k else k - 1)"

definition fl :: "rat \<Rightarrow> pyfloat" where
  "fl q =
     (if q = 0 then Finite 0
      else let a = \<bar>q\<bar>;
               e = max (ilog2 a) (- 1022);
               u = 2 powi (e - 52);
               r = of_int (round_half_even (a / u)) * u
           in if 2 powi 1024 \<le> r then (if q < 0 then NegInf else PosInf)
              else Finite (sgn q * r))"

definition digits_value :: "string \<Rightarrow> int" where
  "digits_value ds = foldl (\<lambda>n c. 10 * n + (of_char c - 48)) 0 ds"

text \<open>
  \<open>float(s)\<close> for a decimal literal \<open>digits '.' digits\<close>, white space around it ignored:
  the binary64 number nearest to the decimal value (Python's conversion is correctly
  rounded). The program calls \<open>float\<close> only on strings that matched the money pattern.
\<close>

definition float_of_str :: "string \<Rightarrow> pyfloat" where
  "float_of_str s =
     (let t = strip s;
          ds = takeWhile isdecimal t;
          fs = drop (Suc (length ds)) t
      in fl (of_int (digits_value ds) + of_int (digits_value fs) / 10 ^ length fs))"

text \<open>\<open>round(x)\<close> and \<open>math.ceil(x)\<close> return an \<open>int\<close> and raise on infinity and NaN.\<close>

definition py_round :: "pyfloat \<Rightarrow> exn + int" where
  "py_round x =
     (case x of
        Finite q \<Rightarrow> Inr (round_half_even q)
      | NaN \<Rightarrow> Inl (ValueError ''cannot convert float NaN to integer'')
      | _ \<Rightarrow> Inl OverflowError)"

definition math_ceil :: "pyfloat \<Rightarrow> exn + int" where
  "math_ceil x =
     (case x of
        Finite q \<Rightarrow> Inr \<lceil>q\<rceil>
      | NaN \<Rightarrow> Inl (ValueError ''cannot convert float NaN to integer'')
      | _ \<Rightarrow> Inl OverflowError)"

text \<open>\<open>x == n\<close> for a float and an int compares the exact values.\<close>

definition float_eq_int :: "pyfloat \<Rightarrow> int \<Rightarrow> bool" where
  "float_eq_int x n = (case x of Finite q \<Rightarrow> q = of_int n | _ \<Rightarrow> False)"

definition float_sgn :: "pyfloat \<Rightarrow> int" where
  "float_sgn x =
     (case x of Finite q \<Rightarrow> (if q < 0 then - 1 else if q = 0 then 0 else 1)
      | PosInf \<Rightarrow> 1 | NegInf \<Rightarrow> - 1 | NaN \<Rightarrow> 0)"

definition float_mul :: "pyfloat \<Rightarrow> pyfloat \<Rightarrow> pyfloat" where
  "float_mul x y =
     (case (x, y) of
        (Finite a, Finite b) \<Rightarrow> fl (a * b)
      | (NaN, _) \<Rightarrow> NaN
      | (_, NaN) \<Rightarrow> NaN
      | _ \<Rightarrow>
          (let s = float_sgn x * float_sgn y
           in if s = 0 then NaN else if 0 < s then PosInf else NegInf))"

text \<open>\<open>x % y\<close>: the remainder has the sign of the divisor.\<close>

definition float_mod :: "pyfloat \<Rightarrow> pyfloat \<Rightarrow> exn + pyfloat" where
  "float_mod x y =
     (if y = Finite 0 then Inl ZeroDivisionError
      else case (x, y) of
             (Finite a, Finite b) \<Rightarrow> Inr (fl (a - b * of_int \<lfloor>a / b\<rfloor>))
           | (Finite a, PosInf) \<Rightarrow> Inr (if 0 \<le> a then Finite a else PosInf)
           | (Finite a, NegInf) \<Rightarrow> Inr (if a \<le> 0 then Finite a else NegInf)
           | _ \<Rightarrow> Inr NaN)"

section \<open>The constants of app.py\<close>

definition required_receipt_attributes :: "string list" where
  "required_receipt_attributes =
     [''retailer'', ''total'', ''items'', ''purchaseDate'', ''purchaseTime'']"

definition required_item_attributes :: "string list" where
  "required_item_attributes = [''shortDescription'', ''price'']"

definition POINTS_RETAILER_NAME_ALPHANUM_CHARACTER :: int where
  "POINTS_RETAILER_NAME_ALPHANUM_CHARACTER = 1"

definition POINTS_TOTAL_HAS_NO_CENTS :: int where
  "POINTS_TOTAL_HAS_NO_CENTS = 50"

definition POINTS_TOTAL_IS_MULTIPLE_OF_QUARTERS :: int where
  "POINTS_TOTAL_IS_MULTIPLE_OF_QUARTERS = 25"

definition POINTS_ITEMS_COUNT :: int where
  "POINTS_ITEMS_COUNT = 5"

text \<open>The literal \<open>0.2\<close> denotes the binary64 number nearest to one fifth.\<close>

definition POINTS_ITEM_DESCRIPTION :: pyfloat where
  "POINTS_ITEM_DESCRIPTION = fl (1 / 5)"

definition POINTS_ODD_PURCHASE_DAY :: int where
  "POINTS_ODD_PURCHASE_DAY = 6"

definition POINTS_VALID_PURCHASE_HOUR :: int where
  "POINTS_VALID_PURCHASE_HOUR = 10"

definition REWARD_ITEM_DESCRIPTION_LENGTH_FACTOR :: int where
  "REWARD_ITEM_DESCRIPTION_LENGTH_FACTOR = 3"

definition REWARD_HOUR_START :: int where
  "REWARD_HOUR_START = 14"

definition REWARD_HOUR_END :: int where
  "REWARD_HOUR_END = 16"

section \<open>Validation and scoring\<close>

definition validate_retailer_name :: "json \<Rightarrow> exn + unit" where
  "validate_retailer_name retailer_name =
     and_then (re_match re_match_nonspace retailer_name) (\<lambda>found.
       if \<not> found
       then Inl (ValueError (''Error: invalid receipt retailer name (''
                              @ the_str retailer_name @ '')''))
       else Inr ())"

definition score_retailer :: "json \<Rightarrow> exn + int" where
  "score_retailer retailer_name =
     and_then (validate_retailer_name retailer_name) (\<lambda>_.
       Inr (sum_list (map (\<lambda>c. (if isalnum c then 1 else 0)
                                    * POINTS_RETAILER_NAME_ALPHANUM_CHARACTER)
                          (the_str retailer_name))))"

definition validate_total :: "json \<Rightarrow> exn + unit" where
  "validate_total tot =
     and_then (re_match re_match_money tot) (\<lambda>found.
       if \<not> found
       then Inl (ValueError (''Error: invalid receipt total ('' @ the_str tot @ '')''))
       else Inr ())"

definition score_total :: "json \<Rightarrow> exn + int" where
  "score_total tot =
     and_then (validate_total tot) (\<lambda>_.
       let parsed_total = float_of_str (the_str tot) in
       and_then (py_round parsed_total) (\<lambda>rounded_total.
         let points = 0;
             points = (if float_eq_int parsed_total rounded_total
                       then points + POINTS_TOTAL_HAS_NO_CENTS else points) in
         and_then (float_mod parsed_total (Finite (1 / 4))) (\<lambda>remainder.
           Inr (if remainder = Finite 0
                then points + POINTS_TOTAL_IS_MULTIPLE_OF_QUARTERS else points))))"

definition validate_item :: "json \<Rightarrow> json \<Rightarrow> exn + unit" where
  "validate_item description price =
     and_then (re_match re_match_description description) (\<lambda>found.
       if \<not> found
       then Inl (ValueError (''Error: invalid item description (''
                              @ the_str description @ '')''))
       else and_then (re_match re_match_money price) (\<lambda>found.
         if \<not> found
         then Inl (ValueError (''Error: invalid item price ('' @ the_str price @ '')''))
         else Inr ()))"

text \<open>The body of the loop of \<open>score_items\<close>: the points one item adds.\<close>

definition score_item :: "json \<Rightarrow> exn + int" where
  "score_item item =
     and_then (subscript item ''shortDescription'') (\<lambda>description.
     and_then (subscript item ''price'') (\<lambda>price.
     and_then (validate_item description price) (\<lambda>_.
       if int (length (strip (the_str description))) mod REWARD_ITEM_DESCRIPTION_LENGTH_FACTOR = 0
       then math_ceil (float_mul (float_of_str (the_str price)) POINTS_ITEM_DESCRIPTION)
       else Inr 0)))"

fun score_items_loop :: "json list \<Rightarrow> int \<Rightarrow> exn + int" where
  "score_items_loop [] points = Inr points"
| "score_items_loop (item # rest) points =
     (case score_item item of
        Inl e \<Rightarrow> Inl e
      | Inr p \<Rightarrow> score_items_loop rest (points + p))"

definition score_items :: "json \<Rightarrow> exn + int" where
  "score_items items =
     and_then (py_iter items) (\<lambda>elements.
       let count = int (length elements);
           points = (count div 2) * POINTS_ITEMS_COUNT
       in score_items_loop elements points)"

subsection \<open>Dates and times\<close>

text \<open>
  \<open>datetime.strptime\<close> compiles the format into a regular expression, matches it at the
  start of the string, and refuses a match that leaves characters over. A directive is
  an ordered choice; each function below lists the ways it can match a prefix, the
  preferred one first, with the number read and the rest of the string.
\<close>

definition directive_Y :: "string \<Rightarrow> (int \<times> string) list" where
  "directive_Y s =
     (if 4 \<le> length s \<and> list_all isdecimal (take 4 s)
      then [(digits_value (take 4 s), drop 4 s)] else [])"

text \<open>The two-character and one-character alternatives of a directive.\<close>

definition two_chars :: "(char \<Rightarrow> char \<Rightarrow> bool) \<Rightarrow> string \<Rightarrow> (int \<times> string) list" where
  "two_chars p s =
     (case s of
        a # b # rest \<Rightarrow> if p a b then [(digits_value (dropWhile isspace [a, b]), rest)] else []
      | _ \<Rightarrow> [])"

definition one_char :: "(char \<Rightarrow> bool) \<Rightarrow> string \<Rightarrow> (int \<times> string) list" where
  "one_char p s =
     (case s of a # rest \<Rightarrow> if p a then [(digits_value [a], rest)] else [] | _ \<Rightarrow> [])"

definition in_range :: "char \<Rightarrow> char \<Rightarrow> char \<Rightarrow> bool" where
  "in_range lo hi c = ((of_char lo :: nat) \<le> of_char c \<and> (of_char c :: nat) \<le> of_char hi)"

text \<open>\<open>%m\<close> is \<open>1[0-2]|0[1-9]|[1-9]\<close>.\<close>

definition directive_m :: "string \<Rightarrow> (int \<times> string) list" where
  "directive_m s =
     two_chars (\<lambda>a b. a = CHR ''1'' \<and> in_range CHR ''0'' CHR ''2'' b) s
     @ two_chars (\<lambda>a b. a = CHR ''0'' \<and> in_range CHR ''1'' CHR ''9'' b) s
     @ one_char (in_range CHR ''1'' CHR ''9'') s"

text \<open>\<open>%d\<close> is \<open>3[0-1]|[1-2]\d|0[1-9]|[1-9]| [1-9]\<close>.\<close>

definition directive_d :: "string \<Rightarrow> (int \<times> string) list" where
  "directive_d s =
     two_chars (\<lambda>a b. a = CHR ''3'' \<and> in_range CHR ''0'' CHR ''1'' b) s
     @ two_chars (\<lambda>a b. in_range CHR ''1'' CHR ''2'' a \<and> isdecimal b) s
     @ two_chars (\<lambda>a b. a = CHR ''0'' \<and> in_range CHR ''1'' CHR ''9'' b) s
     @ one_char (in_range CHR ''1'' CHR ''9'') s
     @ two_chars (\<lambda>a b. a = CHR '' '' \<and> in_range CHR ''1'' CHR ''9'' b) s"

text \<open>\<open>%H\<close> is \<open>2[0-3]|[0-1]\d|\d\<close>.\<close>

definition directive_H :: "string \<Rightarrow> (int \<times> string) list" where
  "directive_H s =
     two_chars (\<lambda>a b. a = CHR ''2'' \<and> in_range CHR ''0'' CHR ''3'' b) s
     @ two_chars (\<lambda>a b. in_range CHR ''0'' CHR ''1'' a \<and> isdecimal b) s
     @ one_char isdecimal s"

text \<open>\<open>%M\<close> is \<open>[0-5]\d|\d\<close>.\<close>

definition directive_M :: "string \<Rightarrow> (int \<times> string) list" where
  "directive_M s =
     two_chars (\<lambda>a b. in_range CHR ''0'' CHR ''5'' a \<and> isdecimal b) s
     @ one_char isdecimal s"

definition literal :: "char \<Rightarrow> string \<Rightarrow> string list" where
  "literal c s = (case s of a # rest \<Rightarrow> if a = c then [rest] else [] | _ \<Rightarrow> [])"

definition is_leap :: "int \<Rightarrow> bool" where
  "is_leap y = (y mod 4 = 0 \<and> (y mod 100 \<noteq> 0 \<or> y mod 400 = 0))"

definition days_in_month :: "int \<Rightarrow> int \<Rightarrow> int" where
  "days_in_month y m =
     (if m = 2 then (if is_leap y then 29 else 28)
      else if m \<in> {4, 6, 9, 11} then 30 else 31)"

text \<open>
  \<open>datetime.strptime(date, '%Y-%m-%d')\<close>: the year, month and day, or None where Python
  raises ValueError (no match, characters left over, no such calendar day, year 0).
\<close>

definition strptime_date :: "string \<Rightarrow> (int \<times> int \<times> int) option" where
  "strptime_date s =
     (case concat (map (\<lambda>(y, s1). concat (map (\<lambda>s2. concat (map (\<lambda>(m, s3).
             concat (map (\<lambda>s4. map (\<lambda>(d, s5). (y, m, d, s5)) (directive_d s4))
                         (literal CHR ''-'' s3)))
             (directive_m s2))) (literal CHR ''-'' s1))) (directive_Y s)) of
        [] \<Rightarrow> None
      | (y, m, d, rest) # _ \<Rightarrow>
          if rest = [] \<and> 1 \<le> y \<and> d \<le> days_in_month y m then Some (y, m, d) else None)"

text \<open>\<open>datetime.strptime(time, '%H:%M')\<close>: the hour and the minute.\<close>

definition strptime_time :: "string \<Rightarrow> (int \<times> int) option" where
  "strptime_time s =
     (case concat (map (\<lambda>(h, s1). concat (map (\<lambda>s2. map (\<lambda>(m, s3). (h, m, s3))
             (directive_M s2)) (literal CHR '':'' s1))) (directive_H s)) of
        [] \<Rightarrow> None
      | (h, m, rest) # _ \<Rightarrow> if rest = [] then Some (h, m) else None)"

definition validate_and_parse_date_time ::
  "json \<Rightarrow> json \<Rightarrow> exn + ((int \<times> int \<times> int) \<times> (int \<times> int))" where
  "validate_and_parse_date_time date time =
     (case date of
        JStr ds \<Rightarrow>
          (case strptime_date ds of
             None \<Rightarrow> Inl (ValueError (''Error: invalid receipt purchase date ('' @ ds @ '')''))
           | Some date_obj \<Rightarrow>
               (case time of
                  JStr ts \<Rightarrow>
                    (case strptime_time ts of
                       None \<Rightarrow>
                         Inl (ValueError (''Error: invalid receipt purchase time ('' @ ts @ '')''))
                     | Some time_obj \<Rightarrow> Inr (date_obj, time_obj))
                | _ \<Rightarrow> Inl TypeError))
      | _ \<Rightarrow> Inl TypeError)"

definition score_date_time :: "json \<Rightarrow> json \<Rightarrow> exn + int" where
  "score_date_time date time =
     and_then (validate_and_parse_date_time date time) (\<lambda>((year, month, day), (hour, minute)).
       let points = 0;
           points = (if day mod 2 \<noteq> 0 then points + POINTS_ODD_PURCHASE_DAY else points);
           points = (if REWARD_HOUR_START \<le> hour \<and> hour < REWARD_HOUR_END
                     then points + POINTS_VALID_PURCHASE_HOUR else points)
       in Inr points)"

subsection \<open>The structure of the JSON input\<close>

fun check_receipt_attributes :: "string list \<Rightarrow> pydict \<Rightarrow> exn + unit" where
  "check_receipt_attributes [] receipt = Inr ()"
| "check_receipt_attributes (attribute # rest) receipt =
     (case map_of receipt attribute of
        None \<Rightarrow> Inl (ValueError (''Error: missing '' @ attribute @ '' in receipt''))
      | Some v \<Rightarrow>
          if attribute \<noteq> ''items'' \<and> \<not> isinstance_str v
          then Inl (ValueError (''Error: invalid '' @ attribute @ '' format''))
          else check_receipt_attributes rest receipt)"

fun check_item_attributes :: "string list \<Rightarrow> json \<Rightarrow> exn + unit" where
  "check_item_attributes [] item = Inr ()"
| "check_item_attributes (attribute # rest) item =
     and_then (subscript item attribute) (\<lambda>v.
       if \<not> isinstance_str v then Inl (ValueError ''Error: invalid receipt item format'')
       else check_item_attributes rest item)"

fun check_items :: "json list \<Rightarrow> exn + unit" where
  "check_items [] = Inr ()"
| "check_items (item # rest) =
     (if \<not> isinstance_dict item then Inl (ValueError ''Error: invalid receipt item format'')
      else case check_item_attributes required_item_attributes item of
             Inl e \<Rightarrow> Inl e
           | Inr _ \<Rightarrow> check_items rest)"

definition validate_receipt_json_structure :: "pydict \<Rightarrow> exn + unit" where
  "validate_receipt_json_structure receipt =
     and_then (check_receipt_attributes required_receipt_attributes receipt) (\<lambda>_.
     and_then (subscript (JDict receipt) ''items'') (\<lambda>items.
       if \<not> isinstance_list items
       then Inl (ValueError ''Error: invalid receipt items list format'')
       else and_then (py_iter items) (\<lambda>elements.
         if length elements < 1 then Inl (ValueError ''Error: receipt items list is empty'')
         else check_items elements)))"

definition calculate_points :: "pydict \<Rightarrow> exn + int" where
  "calculate_points receipt =
     (let points = 0 in
      and_then (subscript (JDict receipt) ''retailer'') (\<lambda>retailer.
      and_then (score_retailer retailer) (\<lambda>p1.
      and_then (subscript (JDict receipt) ''total'') (\<lambda>tot.
      and_then (score_total tot) (\<lambda>p2.
      and_then (subscript (JDict receipt) ''items'') (\<lambda>items.
      and_then (score_items items) (\<lambda>p3.
      and_then (subscript (JDict receipt) ''purchaseDate'') (\<lambda>purchaseDate.
      and_then (subscript (JDict receipt) ''purchaseTime'') (\<lambda>purchaseTime.
      and_then (score_date_time purchaseDate purchaseTime) (\<lambda>p4.
        Inr (points + p1 + p2 + p3 + p4)))))))))))"

section \<open>The two routes\<close>

text \<open>
  The dictionary \<open>receipts\<close> is the state. The uuid that \<open>process_receipt\<close> draws is an
  argument of the model. An exception that is not a ValueError is not caught by the
  route: it leaves \<open>process_receipt\<close>, and the framework answers for it.
\<close>

type_synonym store = "string \<rightharpoonup> int"

text \<open>
  The answers of the routes: 200 with the id, 200 with the points, 400 with the message of
  the ValueError, 404 with the message for an unknown id; and an exception that was not
  caught.
\<close>

datatype response =
    Ok_id string
  | Ok_points int
  | Bad_request string
  | Not_found string
  | Uncaught exn

text \<open>The body of the \<open>try\<close> block of \<open>process_receipt\<close>, up to the assignment.\<close>

definition validate_and_score :: "pydict \<Rightarrow> exn + int" where
  "validate_and_score receipt =
     and_then (validate_receipt_json_structure receipt) (\<lambda>_. calculate_points receipt)"

definition process_receipt :: "string \<Rightarrow> pydict \<Rightarrow> store \<Rightarrow> response \<times> store" where
  "process_receipt receipt_id receipt receipts =
     (case validate_and_score receipt of
        Inr points \<Rightarrow> (Ok_id receipt_id, receipts(receipt_id \<mapsto> points))
      | Inl (ValueError msg) \<Rightarrow> (Bad_request msg, receipts)
      | Inl e \<Rightarrow> (Uncaught e, receipts))"

definition get_points :: "string \<Rightarrow> store \<Rightarrow> response \<times> store" where
  "get_points receipt_id receipts =
     (case receipts receipt_id of
        None \<Rightarrow> (Not_found (''ERROR: receipt id not found ('' @ receipt_id @ '')''), receipts)
      | Some points \<Rightarrow> (Ok_points points, receipts))"

text \<open>A run of the service: requests served one after the other.\<close>

datatype request = Submit string pydict | Retrieve string

fun serve :: "request \<Rightarrow> store \<Rightarrow> response \<times> store" where
  "serve (Submit receipt_id receipt) receipts = process_receipt receipt_id receipt receipts"
| "serve (Retrieve receipt_id) receipts = get_points receipt_id receipts"

fun run :: "request list \<Rightarrow> store \<Rightarrow> store" where
  "run [] receipts = receipts"
| "run (r # rs) receipts = run rs (snd (serve r receipts))"

section \<open>Exact decimal amounts\<close>

text \<open>
  The vocabulary in which the properties of the scoring are stated. It is not part of the
  program: it says what the scoring rules give when they are read on exact decimal
  numbers.

  The amount a money string \<open>digits '.' two digits\<close> denotes, as an exact number of
  cents, and the points of a total with that amount: 50 when there are no cents, 25 more
  when the amount is a multiple of a quarter.
\<close>

definition exact_cents :: "string \<Rightarrow> int" where
  "exact_cents s =
     (let ds = takeWhile isdecimal s
      in 100 * digits_value ds + digits_value (drop (Suc (length ds)) s))"

definition exact_total_points :: "string \<Rightarrow> int" where
  "exact_total_points s =
     (if exact_cents s mod 100 = 0 then 50 else 0) + (if exact_cents s mod 25 = 0 then 25 else 0)"

text \<open>The exact value of the binary64 number nearest to one fifth (the literal \<open>0.2\<close>).\<close>

definition fifth :: rat where "fifth = 3602879701896397 / 2 ^ 54"

text \<open>
  The description and the price of an item that has both as strings, and the items that
  pass every check on an item: a dictionary whose description matches the description
  pattern and whose price is \<open>digits '.' two digits\<close>.
\<close>

definition str_field :: "json \<Rightarrow> string \<Rightarrow> string option" where
  "str_field item k = (case subscript item k of Inr (JStr s) \<Rightarrow> Some s | _ \<Rightarrow> None)"

definition item_description :: "json \<Rightarrow> string" where
  "item_description item =
     (case str_field item ''shortDescription'' of Some s \<Rightarrow> s | None \<Rightarrow> [])"

definition item_price :: "json \<Rightarrow> string" where
  "item_price item = (case str_field item ''price'' of Some s \<Rightarrow> s | None \<Rightarrow> [])"

definition valid_item :: "json \<Rightarrow> bool" where
  "valid_item item =
     (case str_field item ''shortDescription'' of
        Some d \<Rightarrow>
          (case str_field item ''price'' of
             Some p \<Rightarrow> re_match_description d \<and> money_shape p
           | None \<Rightarrow> False)
      | None \<Rightarrow> False)"

text \<open>
  The points of the items when the bonus for a description is the ceiling of the exact
  decimal price times 0.2.
\<close>

definition exact_item_points :: "json \<Rightarrow> int" where
  "exact_item_points item =
     (if int (length (strip (item_description item))) mod 3 = 0
      then \<lceil>(of_int (exact_cents (item_price item)) :: rat) / 100 * (1 / 5)\<rceil>
      else 0)"

definition exact_items_points :: "json list \<Rightarrow> int" where
  "exact_items_points items =
     (int (length items) div 2) * 5 + sum_list (map exact_item_points items)"

section \<open>Outcomes, runs and agreement of receipts\<close>

text \<open>
  The exception a computation raises, if any; a receipt is accepted when it is scored.
\<close>

definition verdict :: "exn + 'a \<Rightarrow> exn option" where
  "verdict outcome = (case outcome of Inl e \<Rightarrow> Some e | Inr _ \<Rightarrow> None)"

definition accepted :: "pydict \<Rightarrow> bool" where
  "accepted receipt = (case validate_and_score receipt of Inr _ \<Rightarrow> True | Inl _ \<Rightarrow> False)"




text \<open>
  Two items agree when they are equal, or are dictionaries with the same description and
  the same price (or the same lack of one). Two receipts agree on the declared fields when
  they have the same retailer, total, purchaseDate and purchaseTime, and items that agree
  one by one.
\<close>

definition same_item_fields :: "json \<Rightarrow> json \<Rightarrow> bool" where
  "same_item_fields a b =
     (a = b \<or>
      (isinstance_dict a \<and> isinstance_dict b
       \<and> subscript a ''shortDescription'' = subscript b ''shortDescription''
       \<and> subscript a ''price'' = subscript b ''price''))"

definition same_items :: "json \<Rightarrow> json \<Rightarrow> bool" where
  "same_items x y =
     (x = y \<or>
      (case x of
         JList xs \<Rightarrow> (case y of JList ys \<Rightarrow> list_all2 same_item_fields xs ys | _ \<Rightarrow> False)
       | _ \<Rightarrow> False))"

definition same_declared_fields :: "pydict \<Rightarrow> pydict \<Rightarrow> bool" where
  "same_declared_fields r1 r2 =
     (map_of r1 ''retailer'' = map_of r2 ''retailer''
      \<and> map_of r1 ''total'' = map_of r2 ''total''
      \<and> map_of r1 ''purchaseDate'' = map_of r2 ''purchaseDate''
      \<and> map_of r1 ''purchaseTime'' = map_of r2 ''purchaseTime''
      \<and> rel_option same_items (map_of r1 ''items'') (map_of r2 ''items''))"

section \<open>The rules in the order of their checks\<close>

text \<open>
  The vocabulary in which the order of the checks is stated. It is not part of the
  program: every rule of section 4.1 of the specification is a verdict of its own, the
  exception the rule raises on the receipt or None, and the verdicts are listed in the
  order in which the program reaches the rules. The first verdict of a list that is an
  exception is the first violation.
\<close>

fun first_violation :: "exn option list \<Rightarrow> exn option" where
  "first_violation [] = None"
| "first_violation (Some e # later) = Some e"
| "first_violation (None # later) = first_violation later"



















section \<open>The receipts of test.py\<close>

text \<open>The first two entries of \<open>valid_receipts\<close>, key by key as they are written there.\<close>

definition test_item :: "string \<Rightarrow> string \<Rightarrow> json" where
  "test_item description price =
     JDict [(''shortDescription'', JStr description), (''price'', JStr price)]"

definition target_items :: "json list" where
  "target_items =
     [test_item ''Mountain Dew 12PK'' ''6.49'',
      test_item ''Emils Cheese Pizza'' ''12.25'',
      test_item ''Knorr Creamy Chicken'' ''1.26'',
      test_item ''Doritos Nacho Cheese'' ''3.35'',
      test_item ''   Klarbrunn 12-PK 12 FL OZ  '' ''12.00'']"

definition target_receipt :: pydict where
  "target_receipt =
     [(''retailer'', JStr ''Target''),
      (''purchaseDate'', JStr ''2022-01-01''),
      (''purchaseTime'', JStr ''13:01''),
      (''items'', JList target_items),
      (''total'', JStr ''35.35'')]"

definition corner_market_items :: "json list" where
  "corner_market_items =
     [test_item ''Gatorade'' ''2.25'',
      test_item ''Gatorade'' ''2.25'',
      test_item ''Gatorade'' ''2.25'',
      test_item ''Gatorade'' ''2.25'']"

definition corner_market_receipt :: pydict where
  "corner_market_receipt =
     [(''retailer'', JStr ''M&M Corner Market''),
      (''purchaseDate'', JStr ''2022-03-20''),
      (''purchaseTime'', JStr ''14:33''),
      (''items'', JList corner_market_items),
      (''total'', JStr ''9.00'')]"

section \<open>Further receipts\<close>

text \<open>The Target receipt with keys that are not declared, in another order.\<close>

definition target_receipt_extra :: pydict where
  "target_receipt_extra =
     [(''cashier'', JStr ''Kim''),
      (''total'', JStr ''35.35''),
      (''items'', JList (map (\<lambda>item. case item of JDict d \<Rightarrow> JDict ((''sku'', JInt 7) # d) | _ \<Rightarrow> item)
                             target_items)),
      (''retailer'', JStr ''Target''),
      (''purchaseDate'', JStr ''2022-01-01''),
      (''purchaseTime'', JStr ''13:01''),
      (''store'', JInt 1375)]"

text \<open>The simple receipt of the tests with a blank retailer name.\<close>

definition blank_retailer_receipt :: pydict where
  "blank_retailer_receipt =
     [(''retailer'', JStr ''   ''),
      (''purchaseDate'', JStr ''2022-01-02''),
      (''purchaseTime'', JStr ''13:13''),
      (''total'', JStr ''1.25''),
      (''items'', JList [test_item ''Pepsi - 12-oz'' ''1.25''])]"

text \<open>The simple receipt of the tests, its item without a description.\<close>

definition missing_description_receipt :: pydict where
  "missing_description_receipt =
     [(''retailer'', JStr ''Target''),
      (''purchaseDate'', JStr ''2022-01-02''),
      (''purchaseTime'', JStr ''13:13''),
      (''total'', JStr ''1.25''),
      (''items'', JList [JDict [(''price'', JStr ''1.25'')]])]"




text \<open>The simple receipt of the tests, its item without a price.\<close>

definition missing_price_receipt :: pydict where
  "missing_price_receipt =
     [(''retailer'', JStr ''Target''),
      (''purchaseDate'', JStr ''2022-01-02''),
      (''purchaseTime'', JStr ''13:13''),
      (''total'', JStr ''1.25''),
      (''items'', JList [JDict [(''shortDescription'', JStr ''Pepsi - 12-oz'')]])]"



text \<open>A total of 310 digits before the point.\<close>

definition huge_total :: string where
  "huge_total = CHR ''1'' # replicate 309 CHR ''0'' @ ''.00''"

section \<open>Rounding to binary64\<close>

lemma bitlen_ge_one: "0 < a \<Longrightarrow> 1 \<le> bitlen a"
  by (simp add: bitlen_alt_def)

lemma bitlen_powi_lower:
  assumes "0 < (a::int)"
  shows "(2::rat) powi (bitlen a - 1) \<le> of_int a"
proof -
  from bitlen_bounds[OF assms] have 1: "2 ^ nat (bitlen a - 1) \<le> a" by auto
  have "(2::rat) powi (bitlen a - 1) = of_int (2 ^ nat (bitlen a - 1))"
    using bitlen_ge_one[OF assms] by (simp add: power_int_nonneg_exp)
  also have "\<dots> \<le> of_int a" using 1 by (simp only: of_int_le_iff)
  finally show ?thesis .
qed

lemma bitlen_powi_upper:
  assumes "0 < (a::int)"
  shows "of_int a < (2::rat) powi (bitlen a)"
proof -
  from bitlen_bounds[OF assms] have 2: "a < 2 ^ nat (bitlen a)" by auto
  have "(2::rat) powi (bitlen a) = of_int (2 ^ nat (bitlen a))"
    using bitlen_ge_one[OF assms] by (simp add: power_int_nonneg_exp)
  moreover have "of_int a < (of_int (2 ^ nat (bitlen a)) :: rat)" using 2 by (simp only: of_int_less_iff)
  ultimately show ?thesis by simp
qed

lemma ilog2_bounds:
  assumes "0 < q"
  shows "2 powi (ilog2 q) \<le> q \<and> q < 2 powi (ilog2 q + 1)"
proof -
  obtain a b where ab: "quotient_of q = (a, b)" by (cases "quotient_of q")
  have b: "0 < b" using quotient_of_denom_pos[OF ab] .
  have q: "q = of_int a / of_int b" using quotient_of_div[OF ab] .
  have a: "0 < a" using assms b q by (simp add: zero_less_divide_iff)
  define k where "k = bitlen a - bitlen b"
  have up: "q < 2 powi (k + 1)"
  proof -
    have "q < 2 powi (bitlen a) / of_int b"
      unfolding q using bitlen_powi_upper[OF a] b by (simp add: divide_strict_right_mono)
    also have "\<dots> \<le> 2 powi (bitlen a) / 2 powi (bitlen b - 1)"
      using bitlen_powi_lower[OF b] b by (intro divide_left_mono) auto
    also have "\<dots> = 2 powi (k + 1)"
      by (simp add: k_def power_int_diff[symmetric] algebra_simps)
    finally show ?thesis .
  qed
  have lo: "2 powi (k - 1) < q"
  proof -
    have "2 powi (k - 1) = 2 powi (bitlen a - 1) / (2::rat) powi (bitlen b)"
      by (simp add: k_def power_int_diff[symmetric] algebra_simps)
    also have "\<dots> \<le> of_int a / 2 powi (bitlen b)"
      using bitlen_powi_lower[OF a] by (intro divide_right_mono) auto
    also have "\<dots> < of_int a / of_int b"
      using bitlen_powi_upper[OF b] a b by (intro divide_strict_left_mono) auto
    finally show ?thesis unfolding q .
  qed
  show ?thesis
  proof (cases "2 powi k \<le> q")
    case True
    then have "ilog2 q = k" by (simp add: ilog2_def ab k_def Let_def)
    with True up show ?thesis by simp
  next
    case False
    then have "ilog2 q = k - 1" by (simp add: ilog2_def ab k_def Let_def)
    with False lo show ?thesis by simp
  qed
qed

lemma ilog2_unique:
  assumes "0 < q" "2 powi e \<le> q" "q < 2 powi (e + 1)"
  shows "ilog2 q = e"
proof -
  from ilog2_bounds[OF assms(1)] have 1: "2 powi (ilog2 q) \<le> q" and 2: "q < 2 powi (ilog2 q + 1)" by auto
  have "(2::rat) powi (ilog2 q) < 2 powi (e + 1)" using 1 assms(3) by simp
  then have a: "ilog2 q < e + 1"
    by (metis linorder_not_less one_le_numeral power_int_increasing)
  have "(2::rat) powi e < 2 powi (ilog2 q + 1)" using 2 assms(2) by simp
  then have b: "e < ilog2 q + 1"
    by (metis linorder_not_less one_le_numeral power_int_increasing)
  from a b show ?thesis by simp
qed


lemma round_half_even_cases:
  obtains (down) "round_half_even x = \<lfloor>x\<rfloor>" "x - of_int \<lfloor>x\<rfloor> \<le> 1 / 2"
        | (up) "round_half_even x = \<lfloor>x\<rfloor> + 1" "1 / 2 \<le> x - of_int \<lfloor>x\<rfloor>"
  unfolding round_half_even_def Let_def
  by (cases "x - of_int \<lfloor>x\<rfloor> < 1 / 2"; cases "1 / 2 < x - of_int \<lfloor>x\<rfloor>"; cases "even \<lfloor>x\<rfloor>") auto

lemma round_half_even_error: "\<bar>of_int (round_half_even x) - x\<bar> \<le> 1 / 2"
proof -
  have f: "of_int \<lfloor>x\<rfloor> \<le> x" "x < of_int \<lfloor>x\<rfloor> + 1" by linarith+
  show ?thesis
  proof (cases x rule: round_half_even_cases)
    case down
    with f show ?thesis by simp
  next
    case up
    with f show ?thesis by simp
  qed
qed

lemma round_half_even_near:
  assumes "\<bar>x - of_int m\<bar> < 1 / 2"
  shows "round_half_even x = m"
proof -
  have "\<bar>of_int (round_half_even x) - x\<bar> \<le> 1 / 2" by (rule round_half_even_error)
  with assms have "\<bar>(of_int (round_half_even x) :: rat) - of_int m\<bar> < 1" by linarith
  then have "\<bar>round_half_even x - m\<bar> < 1"
    by (metis of_int_abs of_int_diff of_int_less_1_iff)
  then show ?thesis by simp
qed

lemma round_half_even_of_int [simp]: "round_half_even (of_int m) = m"
  by (rule round_half_even_near) simp

lemma round_half_even_le:
  assumes "x \<le> of_int N"
  shows "round_half_even x \<le> N"
proof (cases x rule: round_half_even_cases)
  case down
  then show ?thesis using assms by (simp add: floor_le_iff)
next
  case up
  then have "of_int \<lfloor>x\<rfloor> < (of_int N :: rat)" using assms by linarith
  then have "\<lfloor>x\<rfloor> < N" by (simp only: of_int_less_iff)
  with up show ?thesis by simp
qed

lemma round_half_even_ge:
  assumes "of_int N \<le> x"
  shows "N \<le> round_half_even x"
proof -
  have "N \<le> \<lfloor>x\<rfloor>" using assms by (simp add: le_floor_iff)
  then show ?thesis by (cases x rule: round_half_even_cases) auto
qed

lemma round_half_even_gt:
  assumes "of_int N + 1 / 2 < x"
  shows "N + 1 \<le> round_half_even x"
proof (cases x rule: round_half_even_cases)
  case down
  then have "(of_int N :: rat) < of_int \<lfloor>x\<rfloor>" using assms by linarith
  then have "N < \<lfloor>x\<rfloor>" by (simp only: of_int_less_iff)
  with down show ?thesis by simp
next
  case up
  have "N \<le> \<lfloor>x\<rfloor>" using assms by (simp add: le_floor_iff)
  with up show ?thesis by simp
qed

text \<open>The shape of a rounded positive number in the normal range.\<close>

lemma fl_grid:
  assumes "2 powi (- 1022) \<le> q" "q < 2 powi 1023"
  obtains e m where "fl q = Finite (of_int m * 2 powi (e - 52))"
    and "2 powi e \<le> q" and "q < 2 powi (e + 1)"
    and "m = round_half_even (q / 2 powi (e - 52))"
    and "- 1022 \<le> e" and "e < 1023"
proof -
  have pos: "0 < q" using assms(1) by (rule less_le_trans[rotated]) simp
  define e where "e = ilog2 q"
  define u :: rat where "u = 2 powi (e - 52)"
  define m where "m = round_half_even (q / u)"
  have u: "0 < u" by (simp add: u_def)
  from ilog2_bounds[OF pos] have lo: "2 powi e \<le> q" and hi: "q < 2 powi (e + 1)"
    by (auto simp: e_def)
  have "(2::rat) powi (- 1022) < 2 powi (e + 1)" using assms(1) hi by simp
  then have e1: "- 1022 \<le> e"
    by (metis linorder_not_less one_le_numeral power_int_increasing add.commute zle_add1_eq_le int_one_le_iff_zero_less  zless_add1_eq not_le less_le)
  have "(2::rat) powi e < 2 powi 1023" using assms(2) lo by simp
  then have e2: "e < 1023"
    by (metis linorder_not_less one_le_numeral power_int_increasing)
  have "q / u < 2 powi (e + 1) / u" using hi u by (simp add: divide_strict_right_mono)
  also have "\<dots> = 2 ^ 53" by (simp add: u_def power_int_diff[symmetric])
  finally have "q / u \<le> of_int (2 ^ 53)" by simp
  then have m53: "m \<le> 2 ^ 53" unfolding m_def by (rule round_half_even_le)
  have "of_int m * u \<le> 2 ^ 53 * u" using m53 u by (simp add: mult_right_mono)
  also have "\<dots> = 2 powi (e + 1)" by (simp add: u_def power_int_diff power_int_add)
  also have "\<dots> < 2 powi 1024" using e2 by (intro power_int_strict_increasing) auto
  finally have r: "\<not> 2 powi 1024 \<le> of_int m * u" by simp
  have "fl q = Finite (of_int m * u)"
    using pos e1 r unfolding fl_def Let_def m_def u_def e_def by (simp add: max_def)
  then show ?thesis using lo hi e1 e2 that[of m e] unfolding u_def m_def by blast
qed

lemma fl_round:
  assumes "2 powi e \<le> q" "q < 2 powi (e + 1)" "- 1022 \<le> e" "e < 1023"
  shows "fl q = Finite (of_int (round_half_even (q / 2 powi (e - 52))) * 2 powi (e - 52))"
proof -
  have 1: "2 powi (- 1022) \<le> q"
    using assms(1,3) by (meson order_trans power_int_increasing one_le_numeral)
  have 2: "q < 2 powi 1023"
    using assms(2,4) by (meson less_le_trans power_int_increasing one_le_numeral zless_imp_add1_zle)
  have pos: "0 < q" using 1 by (rule less_le_trans[rotated]) simp
  obtain e' m' where *: "fl q = Finite (of_int m' * 2 powi (e' - 52))"
    "2 powi e' \<le> q" "q < 2 powi (e' + 1)" "m' = round_half_even (q / 2 powi (e' - 52))"
    using fl_grid[OF 1 2] by metis
  have "e' = e" using ilog2_unique[OF pos *(2,3)] ilog2_unique[OF pos assms(1,2)] by simp
  then show ?thesis using * by simp
qed

text \<open>Evaluating a rounding: the exponent and the significand are given.\<close>

lemma fl_eval:
  assumes "2 powi e \<le> q" "q < 2 powi (e + 1)" "- 1022 \<le> e" "e < 1023"
    and "\<bar>q / 2 powi (e - 52) - of_int m\<bar> < 1 / 2"
  shows "fl q = Finite (of_int m * 2 powi (e - 52))"
  using fl_round[OF assms(1-4)] round_half_even_near[OF assms(5)] by simp

section \<open>Money strings\<close>

lemma money_shape_split:
  assumes "money_shape s"
  obtains ds d1 d2 where "s = ds @ [CHR ''.'', d1, d2]" "ds \<noteq> []" "list_all isdecimal ds"
    "isdecimal d1" "isdecimal d2" "takeWhile isdecimal s = ds"
proof -
  from assms obtain p d1 d2 where d: "dropWhile isdecimal s = [p, d1, d2]"
    and p: "p = CHR ''.''" and dd: "isdecimal d1" "isdecimal d2"
    and ne: "takeWhile isdecimal s \<noteq> []"
    unfolding money_shape_def by (auto split: list.splits)
  have "s = takeWhile isdecimal s @ dropWhile isdecimal s" by simp
  then have "s = takeWhile isdecimal s @ [CHR ''.'', d1, d2]" using d p by simp
  moreover have "list_all isdecimal (takeWhile isdecimal s)"
    by (simp add: list_all_iff) (meson set_takeWhileD)
  ultimately show ?thesis using that ne dd by blast
qed

lemma isdecimal_not_isspace: "isdecimal c \<Longrightarrow> \<not> isspace c"
  by (auto simp: isdecimal_def isspace_def)

lemma strip_money_shape:
  assumes "money_shape s"
  shows "strip s = s"
proof -
  from assms obtain ds d1 d2 where s: "s = ds @ [CHR ''.'', d1, d2]" and ne: "ds \<noteq> []"
    and ds: "list_all isdecimal ds" and d2: "isdecimal d2"
    by (rule money_shape_split)
  obtain c cs where c: "ds = c # cs" using ne by (cases ds) auto
  have "\<not> isspace c" using ds c by (simp add: isdecimal_not_isspace)
  then have 1: "dropWhile isspace s = s" by (simp add: s c)
  have "rev s = d2 # rev (ds @ [CHR ''.'', d1])" by (simp add: s)
  then have 2: "dropWhile isspace (rev s) = rev s"
    using d2 by (simp add: isdecimal_not_isspace)
  show ?thesis by (simp add: strip_def 1 2)
qed

lemma digits_value_two:
  assumes "isdecimal d1" "isdecimal d2"
  shows "0 \<le> digits_value [d1, d2] \<and> digits_value [d1, d2] < 100"
  using assms unfolding digits_value_def isdecimal_def
  by (simp add: of_nat_of_char[symmetric, where ?'a = int])

lemma digits_value_foldl_nonneg:
  "list_all isdecimal ds \<Longrightarrow> 0 \<le> n \<Longrightarrow>
     0 \<le> foldl (\<lambda>n c. 10 * n + (of_char c - 48)) (n::int) ds"
proof (induction ds arbitrary: n)
  case Nil
  then show ?case by simp
next
  case (Cons c cs)
  have "48 \<le> (of_char c :: int)"
    using Cons.prems(1) by (simp add: isdecimal_def of_nat_of_char[symmetric, where ?'a = int])
  then have "0 \<le> 10 * n + (of_char c - 48)" using Cons.prems(2) by simp
  then show ?case using Cons.IH[of "10 * n + (of_char c - 48)"] Cons.prems(1) by simp
qed

lemma digits_value_nonneg: "list_all isdecimal ds \<Longrightarrow> 0 \<le> digits_value ds"
  unfolding digits_value_def by (rule digits_value_foldl_nonneg) simp_all

lemma exact_cents_nonneg: "money_shape s \<Longrightarrow> 0 \<le> exact_cents s"
proof -
  assume "money_shape s"
  then obtain ds d1 d2 where s: "s = ds @ [CHR ''.'', d1, d2]"
    and ds: "list_all isdecimal ds" and dd: "isdecimal d1" "isdecimal d2"
    and tw: "takeWhile isdecimal s = ds"
    by (rule money_shape_split)
  have "drop (Suc (length ds)) s = [d1, d2]" by (simp add: s)
  then show ?thesis
    using digits_value_nonneg[OF ds] digits_value_two[OF dd]
    by (simp add: exact_cents_def tw Let_def)
qed

lemma float_of_str_money:
  assumes "money_shape s"
  shows "float_of_str s = fl (of_int (exact_cents s) / 100)"
proof -
  from assms obtain ds d1 d2 where s: "s = ds @ [CHR ''.'', d1, d2]"
    and tw: "takeWhile isdecimal s = ds"
    by (rule money_shape_split)
  have dr: "drop (Suc (length ds)) s = [d1, d2]" by (simp add: s)
  have len: "length s - Suc (length ds) = 2" by (simp add: s)
  show ?thesis
    by (simp add: float_of_str_def len strip_money_shape[OF assms] tw dr exact_cents_def Let_def
        add_divide_distrib)
qed

section \<open>The points for the total\<close>

lemma validate_total_money: "re_match_money s \<Longrightarrow> validate_total (JStr s) = Inr ()"
  by (simp add: validate_total_def and_then_def re_match_def)

lemma score_total_Finite:
  assumes "re_match_money s" "float_of_str s = Finite x"
  shows "score_total (JStr s) =
           Inr ((if x = of_int (round_half_even x) then 50 else 0)
                + (if fl (x - 1 / 4 * of_int \<lfloor>x / (1 / 4)\<rfloor>) = Finite 0 then 25 else 0))"
proof -
  have m: "float_mod (Finite x) (Finite (1 / 4)) = Inr (fl (x - 1 / 4 * of_int \<lfloor>x / (1 / 4)\<rfloor>))"
    by (simp add: float_mod_def)
  show ?thesis
    unfolding score_total_def validate_total_money[OF assms(1)] and_then_def
    by (simp only: sum.case the_str_def json.case assms(2) Let_def py_round_def pyfloat.case m
        float_eq_int_def POINTS_TOTAL_HAS_NO_CENTS_def POINTS_TOTAL_IS_MULTIPLE_OF_QUARTERS_def)
      simp
qed

text \<open>Rounding: zero, the error bound, exact numbers.\<close>

lemma fl_zero [simp]: "fl 0 = Finite 0"
  by (simp add: fl_def)

lemma powi_less_cancel:
  assumes "(2::rat) powi a < 2 powi b"
  shows "a < b"
  using assms by (metis linorder_not_less one_le_numeral power_int_increasing)

lemma fl_error:
  assumes "2 powi (- 1022) \<le> q" "q < 2 powi E" "E \<le> 1023"
  obtains x where "fl q = Finite x" "\<bar>x - q\<bar> \<le> 2 powi (E - 54)"
proof -
  have q1023: "q < 2 powi 1023"
    using assms(2,3) by (meson less_le_trans power_int_increasing one_le_numeral)
  obtain e m where fl: "fl q = Finite (of_int m * 2 powi (e - 52))"
    and lo: "2 powi e \<le> q" and m: "m = round_half_even (q / 2 powi (e - 52))"
    using fl_grid[OF assms(1) q1023] by metis
  define u :: rat where "u = 2 powi (e - 52)"
  have u: "0 < u" by (simp add: u_def)
  have "(2::rat) powi e < 2 powi E" using lo assms(2) by simp
  then have "e < E" by (rule powi_less_cancel)
  then have "u \<le> 2 powi (E - 53)"
    unfolding u_def by (intro power_int_increasing) auto
  moreover have "(2::rat) powi (E - 53) = 2 * 2 powi (E - 54)"
    using power_int_add[of "2::rat" 1 "E - 54"] by simp
  ultimately have uE: "u / 2 \<le> 2 powi (E - 54)" by simp
  have "\<bar>of_int m - q / u\<bar> \<le> 1 / 2" unfolding m u_def by (rule round_half_even_error)
  then have "\<bar>of_int m - q / u\<bar> * u \<le> 1 / 2 * u" using u by (simp add: mult_right_mono)
  moreover have "\<bar>of_int m - q / u\<bar> * u = \<bar>of_int m * u - q\<bar>"
  proof -
    have "(of_int m - q / u) * u = of_int m * u - q" using u by (simp add: field_simps)
    then have "\<bar>of_int m * u - q\<bar> = \<bar>of_int m - q / u\<bar> * \<bar>u\<bar>" by (metis abs_mult)
    then show ?thesis using u by simp
  qed
  ultimately have "\<bar>of_int m * u - q\<bar> \<le> 2 powi (E - 54)" using uE by simp
  then show ?thesis using that fl unfolding u_def by blast
qed

lemma fl_nonzero:
  assumes "2 powi (- 1022) \<le> q" "q < 2 powi 1023"
  shows "fl q \<noteq> Finite 0"
proof -
  obtain e m where fl: "fl q = Finite (of_int m * 2 powi (e - 52))"
    and lo: "2 powi e \<le> q" and m: "m = round_half_even (q / 2 powi (e - 52))"
    using fl_grid[OF assms] by metis
  have "(1::rat) \<le> 2 powi e / 2 powi (e - 52)" by (simp add: power_int_diff[symmetric])
  also have "\<dots> \<le> q / 2 powi (e - 52)" using lo by (simp add: divide_right_mono)
  finally have "of_int 1 \<le> q / 2 powi (e - 52)" by simp
  then have "1 \<le> m" unfolding m by (rule round_half_even_ge)
  then have "of_int m * (2::rat) powi (e - 52) \<noteq> 0" by simp
  with fl show ?thesis by simp
qed

lemma fl_exact:
  assumes "2 powi (- 1022) \<le> q" "q < 2 powi 1023"
    and "q = of_int j * 2 powi k" "q < 2 powi (k + 53)"
  shows "fl q = Finite q"
proof -
  obtain e m where fl: "fl q = Finite (of_int m * 2 powi (e - 52))"
    and lo: "2 powi e \<le> q" and m: "m = round_half_even (q / 2 powi (e - 52))"
    using fl_grid[OF assms(1,2)] by metis
  have "(2::rat) powi e < 2 powi (k + 53)" using lo assms(4) by simp
  then have "e < k + 53" by (rule powi_less_cancel)
  then have d: "0 \<le> k - (e - 52)" by simp
  have "q / 2 powi (e - 52) = of_int j * 2 powi (k - (e - 52))"
    unfolding assms(3) by (simp add: power_int_diff)
  also have "\<dots> = of_int (j * 2 ^ nat (k - (e - 52)))"
    using d by (simp add: power_int_nonneg_exp)
  finally have i: "q / 2 powi (e - 52) = of_int (j * 2 ^ nat (k - (e - 52)))" .
  have "of_int m = q / 2 powi (e - 52)" by (simp only: m i round_half_even_of_int)
  then have "of_int m * 2 powi (e - 52) = q" by simp
  with fl show ?thesis by simp
qed

lemma money_shape_re_match: "money_shape s \<Longrightarrow> re_match_money s"
  by (simp add: re_match_money_def)

lemma powi_m1022_le: "(2::rat) powi (- 1022) \<le> 1 / 512"
proof -
  have "(2::rat) powi (- 1022) \<le> 2 powi (- 9)" by (intro power_int_increasing) auto
  then show ?thesis by simp
qed

lemma big_lt_powi_1023: "q \<le> 2 ^ 47 \<Longrightarrow> (q::rat) < 2 powi 1023"
proof -
  assume "q \<le> 2 ^ 47"
  moreover have "(2::rat) powi 47 < 2 powi 1023" by (intro power_int_strict_increasing) auto
  ultimately show ?thesis by simp
qed

text \<open>
  The points of a total in terms of its exact cents. A multiple of a quarter below
  \<open>2 ^ 47\<close> is a float; any other amount is at least a cent away from one, and the
  rounding moves it by less.
\<close>

lemma score_total_of_cents:
  assumes ms: "money_shape s" and n: "exact_cents s = n" and n0: "0 \<le> n" and nb: "n < 100 * 2 ^ 47"
  shows "score_total (JStr s) = Inr ((if n mod 100 = 0 then 50 else 0) + (if n mod 25 = 0 then 25 else 0))"
proof -
  define p :: rat where "p = of_int n / 100"
  have fs: "float_of_str s = fl p" using float_of_str_money[OF ms] by (simp add: n p_def)
  have rm: "re_match_money s" using ms by (rule money_shape_re_match)
  have pb: "p < 2 ^ 47"
  proof -
    have "(of_int n :: rat) < of_int (100 * 2 ^ 47)" using nb by (simp only: of_int_less_iff)
    then show ?thesis by (simp add: p_def)
  qed
  show ?thesis
  proof (cases "n mod 25 = 0")
    case True
    then obtain j where j: "n = 25 * j" by (auto simp: mod_eq_0_iff_dvd)
    have pj: "p = of_int j / 4" by (simp add: p_def j)
    have x: "fl p = Finite p"
    proof (cases "j = 0")
      case True
      then show ?thesis by (simp add: pj)
    next
      case False
      then have "1 \<le> j" using n0 j by simp
      then have "(1::rat) \<le> of_int j" by simp
      then have lo: "2 powi (- 1022) \<le> p" using powi_m1022_le by (simp add: pj)
      have k: "p = of_int j * 2 powi (- 2)" by (simp add: pj)
      have "p < 2 powi (- 2 + 53)" using pb by simp
      with lo k show ?thesis using big_lt_powi_1023[of p] pb by (intro fl_exact[of p j "- 2"]) auto
    qed
    have fl4: "\<lfloor>p / (1 / 4)\<rfloor> = j" by (simp add: pj)
    have r: "fl (p - 1 / 4 * of_int \<lfloor>p / (1 / 4)\<rfloor>) = Finite 0"
      unfolding fl4 by (simp add: pj)
    have i: "(p = of_int (round_half_even p)) = (n mod 100 = 0)"
    proof
      assume "p = of_int (round_half_even p)"
      then have "(of_int n :: rat) = of_int (100 * round_half_even p)" by (simp add: p_def)
      then have "n = 100 * round_half_even p" by (simp only: of_int_eq_iff)
      then show "n mod 100 = 0" by simp
    next
      assume "n mod 100 = 0"
      then obtain i where "n = 100 * i" by (auto simp: mod_eq_0_iff_dvd)
      then have "p = of_int i" by (simp add: p_def)
      then show "p = of_int (round_half_even p)" by simp
    qed
    show ?thesis
      using score_total_Finite[OF rm, of p] fs x r i True by simp
  next
    case False
    define a where "a = n div 25"
    define b where "b = n mod 25"
    have b: "1 \<le> b" "b \<le> 24" using False by (auto simp: b_def)
    have nab: "n = 25 * a + b" by (simp add: a_def b_def)
    have p4: "4 * p = of_int a + of_int b / 25" by (simp add: p_def nab)
    have "(1::rat) \<le> of_int b" "(of_int b :: rat) \<le> 24" using b by simp_all
    then have b25: "(1::rat) / 25 \<le> of_int b / 25" "(of_int b :: rat) / 25 \<le> 24 / 25" by simp_all
    have "0 < n" using n0 False by (cases "n = 0") auto
    then have "(1::rat) \<le> of_int n" by simp
    then have lo: "2 powi (- 1022) \<le> p" using powi_m1022_le by (simp add: p_def)
    have "p < 2 powi 47" using pb by simp
    then obtain x where x: "fl p = Finite x" and err: "\<bar>x - p\<bar> \<le> 2 powi (47 - 54)"
      using fl_error[OF lo, of 47] by auto
    have "\<bar>x - p\<bar> \<le> 1 / 128" using err by simp
    then have err': "\<bar>4 * x - 4 * p\<bar> \<le> 1 / 32" by linarith
    have lo4: "of_int a + 7 / 800 \<le> 4 * x" and hi4: "4 * x \<le> of_int a + 1 - 7 / 800"
      using err' p4 b25 by linarith+
    have fl4: "\<lfloor>x / (1 / 4)\<rfloor> = a" using lo4 hi4 by (simp add: floor_eq_iff)
    define r where "r = x - 1 / 4 * of_int a"
    have "7 / 3200 \<le> r" "r < 1 / 4" using lo4 hi4 by (simp_all add: r_def)
    then have "2 powi (- 1022) \<le> r" "r < 2 powi 1023"
      using powi_m1022_le big_lt_powi_1023[of r] by simp_all
    then have r: "fl r \<noteq> Finite 0" by (rule fl_nonzero)
    have i: "x \<noteq> of_int (round_half_even x)"
    proof
      assume "x = of_int (round_half_even x)"
      then obtain i :: int where "x = of_int i" ..
      then have "(of_int a :: rat) < of_int (4 * i)" "(of_int (4 * i) :: rat) < of_int (a + 1)"
        using lo4 hi4 by simp_all
      then have "a < 4 * i" "4 * i < a + 1" by (simp_all only: of_int_less_iff)
      then show False by simp
    qed
    have "25 dvd n \<Longrightarrow> False" using False by (simp add: mod_eq_0_iff_dvd)
    then have n100: "n mod 100 \<noteq> 0" by (metis dvd_trans mod_eq_0_iff_dvd dvd_triv_left mult.commute numeral_Bit0 dvd_def  mult_2 False mod_mod_cancel)
    show ?thesis
      using score_total_Finite[OF rm, of x] fs x r i False n100 fl4 by (simp add: r_def)
  qed
qed

lemma round_half_even_numeral [simp]: "round_half_even (numeral k) = numeral k"
  using round_half_even_of_int[of "numeral k"] by simp

lemmas money_eval = money_shape_def exact_cents_def exact_total_points_def isdecimal_def
  digits_value_def

text \<open>
  Claim C3, as amended. For every total \<open>digits '.' two digits\<close> whose value is below
  \<open>2 ^ 47 = 140737488355328\<close>, \<open>score_total\<close> gives 50 points exactly when the cents
  are 00, plus 25 points exactly when the cents are 00, 25, 50 or 75. The total is parsed
  into a binary64 float; below \<open>2 ^ 47\<close> the rounding of the parse cannot create or
  destroy a multiple of a quarter.
\<close>

theorem score_total_exact_below_2_47:
  assumes "money_shape s" and "exact_cents s < 100 * 2 ^ 47"
  shows "score_total (JStr s) = Inr (exact_total_points s)"
  using score_total_of_cents[OF assms(1) refl exact_cents_nonneg[OF assms(1)] assms(2)]
  by (simp add: exact_total_points_def)

text \<open>The theorem at the four totals of the test receipts.\<close>

theorem score_total_exact_below_2_47_witness:
  "money_shape ''9.00'' \<and> exact_cents ''9.00'' < 100 * 2 ^ 47
   \<and> score_total (JStr ''9.00'') = Inr 75
   \<and> score_total (JStr ''35.35'') = Inr 0
   \<and> score_total (JStr ''2.65'') = Inr 0
   \<and> score_total (JStr ''1.25'') = Inr 25"
  using score_total_exact_below_2_47[of "''9.00''"] score_total_exact_below_2_47[of "''35.35''"]
    score_total_exact_below_2_47[of "''2.65''"] score_total_exact_below_2_47[of "''1.25''"]
  by (simp add: money_eval)

text \<open>
  Claim C3 as stated fails from \<open>2 ^ 47\<close> on: the total 140737488355328.01 has cents, the
  float nearest to it is the integer 140737488355328, and it is given all 75 points.
\<close>

theorem score_total_exact_counterexample:
  "money_shape ''140737488355328.01''
   \<and> exact_total_points ''140737488355328.01'' = 0
   \<and> score_total (JStr ''140737488355328.01'') = Inr 75"
proof -
  have ms: "money_shape ''140737488355328.01''" by (simp add: money_eval)
  have c: "exact_cents ''140737488355328.01'' = 14073748835532801" by (simp add: money_eval)
  have f: "float_of_str ''140737488355328.01'' = Finite 140737488355328"
    unfolding float_of_str_money[OF ms] c
    using fl_eval[of 47 "14073748835532801 / 100" "2 ^ 52"] by simp
  show ?thesis
    using score_total_Finite[OF money_shape_re_match[OF ms] f] ms c
    by (simp add: exact_total_points_def)
qed

section \<open>The points for the items\<close>

text \<open>A rounded number with the bounds that its place in the binary grid gives.\<close>

lemma fl_grid_bounds:
  assumes "2 powi (- 1022) \<le> q" "q < 2 powi 1023"
  obtains e m where "fl q = Finite (of_int m * 2 powi (e - 52))"
    and "2 powi e \<le> q" and "q < 2 powi (e + 1)"
    and "\<bar>of_int m * 2 powi (e - 52) - q\<bar> \<le> 2 powi (e - 52) / 2"
    and "of_int m * 2 powi (e - 52) \<le> (2::rat) powi (e + 1)"
    and "m = round_half_even (q / 2 powi (e - 52))"
proof -
  obtain e m where fl: "fl q = Finite (of_int m * 2 powi (e - 52))"
    and lo: "2 powi e \<le> q" and hi: "q < 2 powi (e + 1)"
    and m: "m = round_half_even (q / 2 powi (e - 52))"
    using fl_grid[OF assms] by metis
  define u :: rat where "u = 2 powi (e - 52)"
  have u: "0 < u" by (simp add: u_def)
  have "q / u < 2 powi (e + 1) / u" using hi u by (simp add: divide_strict_right_mono)
  also have "\<dots> = 2 ^ 53" by (simp add: u_def power_int_diff[symmetric])
  finally have "q / u \<le> of_int (2 ^ 53)" by simp
  then have m53: "m \<le> 2 ^ 53" unfolding m u_def by (rule round_half_even_le)
  have "of_int m * u \<le> 2 ^ 53 * u" using m53 u by (simp add: mult_right_mono)
  also have "\<dots> = 2 powi (e + 1)" by (simp add: u_def power_int_diff power_int_add)
  finally have up: "of_int m * u \<le> 2 powi (e + 1)" .
  have "\<bar>of_int m - q / u\<bar> \<le> 1 / 2" unfolding m u_def by (rule round_half_even_error)
  then have "\<bar>of_int m - q / u\<bar> * u \<le> 1 / 2 * u" using u by (simp add: mult_right_mono)
  moreover have "\<bar>of_int m - q / u\<bar> * u = \<bar>of_int m * u - q\<bar>"
  proof -
    have "(of_int m - q / u) * u = of_int m * u - q" using u by (simp add: field_simps)
    then have "\<bar>of_int m * u - q\<bar> = \<bar>of_int m - q / u\<bar> * \<bar>u\<bar>" by (metis abs_mult)
    then show ?thesis using u by simp
  qed
  ultimately have err: "\<bar>of_int m * u - q\<bar> \<le> u / 2" by simp
  show ?thesis using that[of m e] fl lo hi err up m unfolding u_def by blast
qed

text \<open>An integer is a multiple of the unit in the last place of a number below \<open>2 ^ 53\<close>.\<close>

lemma int_on_grid:
  assumes "e \<le> 52"
  shows "(of_int K :: rat) = of_int (K * 2 ^ nat (52 - e)) * 2 powi (e - 52)"
proof -
  have "(2::rat) powi (52 - e) = 2 ^ nat (52 - e)" using assms by (simp add: power_int_nonneg_exp)
  moreover have "(2::rat) powi (52 - e) * 2 powi (e - 52) = 1"
    by (simp flip: power_int_add)
  ultimately show ?thesis by (simp add: mult.assoc)
qed

lemma grid_less_step:
  assumes "0 < (g::rat)" "of_int a * g < of_int b * g"
  shows "of_int a * g + g \<le> of_int b * g"
proof -
  have "(of_int a :: rat) < of_int b" using assms by (simp add: mult_less_cancel_right)
  then have "a + 1 \<le> b" by simp
  then have "(of_int (a + 1) :: rat) \<le> of_int b" by (simp only: of_int_le_iff)
  then have "of_int (a + 1) * g \<le> of_int b * g" using assms(1) by (simp add: mult_right_mono)
  then show ?thesis by (simp add: algebra_simps)
qed

lemma fl_fifth: "fl (1 / 5) = Finite fifth"
  unfolding fifth_def using fl_eval[of "- 3" "1 / 5" 7205759403792794] by simp

lemma fifth_eq: "x * fifth = x / 5 + x / 5 * (1 / 2 ^ 54)"
  by (simp add: fifth_def)

lemma fl_near:
  assumes "2 powi e \<le> q" "q < 2 powi (e + 1)" "- 1022 \<le> e" "e < 1023"
    and "\<bar>q - of_int m * 2 powi (e - 52)\<bar> < 2 powi (e - 52) / 2"
  shows "fl q = Finite (of_int m * 2 powi (e - 52))"
proof -
  define u :: rat where "u = 2 powi (e - 52)"
  have u: "0 < u" by (simp add: u_def)
  have "q / u - of_int m = (q - of_int m * u) / u" using u by (simp add: field_simps)
  then have "\<bar>q / u - of_int m\<bar> = \<bar>q - of_int m * u\<bar> / u" using u by (simp add: abs_divide)
  also have "\<dots> < (u / 2) / u" using assms(5) u unfolding u_def[symmetric]
    by (intro divide_strict_right_mono) auto
  also have "\<dots> = 1 / 2" using u by simp
  finally show ?thesis using fl_eval[OF assms(1-4), of m] unfolding u_def by simp
qed

text \<open>
  A multiple of five dollars times the float 0.2: the product exceeds the integer fifth
  by less than half a unit in the last place, and is rounded to it.
\<close>

lemma fl_times_fifth_exact:
  assumes "1 \<le> j" "j < 2 ^ 45"
  shows "fl (of_int (5 * j) * fifth) = Finite (of_int j)"
proof -
  define q :: rat where "q = of_int j"
  have q1: "1 \<le> q" using assms(1) by (simp add: q_def)
  have q45: "q < 2 ^ 45"
  proof -
    have "(of_int j :: rat) < of_int (2 ^ 45)" using assms(2) by (simp only: of_int_less_iff)
    then show ?thesis by (simp add: q_def)
  qed
  define e where "e = ilog2 q"
  have lo: "2 powi e \<le> q" and hi: "q < 2 powi (e + 1)"
    using ilog2_bounds[of q] q1 by (auto simp: e_def)
  have "(2::rat) powi 0 < 2 powi (e + 1)" using q1 hi by simp
  then have e0: "0 \<le> e" using powi_less_cancel[of 0 "e + 1"] by simp
  have "(2::rat) powi e < 2 powi 45" using lo q45 by simp
  then have e45: "e < 45" by (rule powi_less_cancel)
  define u :: rat where "u = 2 powi (e - 52)"
  have u: "0 < u" by (simp add: u_def)
  have pu: "(2::rat) powi (e + 1) = 2 ^ 53 * u"
    by (simp add: u_def power_int_diff power_int_add)
  define z :: rat where "z = of_int (5 * j) * fifth"
  have z: "z = q + q / 2 ^ 54" by (simp add: z_def fifth_def q_def)
  have zlo: "2 powi e \<le> z" using lo q1 by (simp add: z)
  have "(2::rat) powi (e + 1) = of_int (2 ^ nat (e + 1))" using e0 by (simp add: power_int_nonneg_exp)
  with hi have "(of_int j :: rat) < of_int (2 ^ nat (e + 1))" by (simp add: q_def)
  then have "j < 2 ^ nat (e + 1)" by (simp only: of_int_less_iff)
  then have "j + 1 \<le> 2 ^ nat (e + 1)" by simp
  then have "(of_int (j + 1) :: rat) \<le> of_int (2 ^ nat (e + 1))" by (simp only: of_int_le_iff)
  then have "q + 1 \<le> 2 powi (e + 1)" using e0 by (simp add: q_def power_int_nonneg_exp)
  moreover have "q / 2 ^ 54 < 1" using q45 by simp
  ultimately have zhi: "z < 2 powi (e + 1)" by (simp add: z)
  have g: "q = of_int (j * 2 ^ nat (52 - e)) * u"
    unfolding q_def u_def using int_on_grid[of e j] e45 by simp
  have "z - of_int (j * 2 ^ nat (52 - e)) * u = q / 2 ^ 54" using g by (simp add: z)
  moreover have "q / 2 ^ 54 < u / 2" using hi pu by simp
  moreover have "0 \<le> q / 2 ^ 54" using q1 by simp
  ultimately have "\<bar>z - of_int (j * 2 ^ nat (52 - e)) * u\<bar> < u / 2" by simp
  then have "fl z = Finite (of_int (j * 2 ^ nat (52 - e)) * u)"
    unfolding u_def using zlo zhi e0 e45 by (intro fl_near) auto
  then show ?thesis using g by (simp add: z_def q_def)
qed

text \<open>
  Any other price: the parsed price lies on the grid of its binade, strictly between the
  two multiples of five around the exact price, so a fifth of it stays strictly between
  two consecutive integers, far enough from the lower one to be rounded above it.
\<close>

lemma fl_times_fifth_inexact:
  fixes n j r :: int
  assumes n: "n = 500 * j + r" and r: "1 \<le> r" "r \<le> 499" and j: "0 \<le> j"
    and nb: "n < 100 * 2 ^ 47"
  obtains x y where "fl (of_int n / 100) = Finite x" "fl (x * fifth) = Finite y"
    "of_int j < y" "y \<le> of_int j + 1"
proof -
  define p :: rat where "p = of_int n / 100"
  have pjr: "p = of_int (5 * j) + of_int r / 100" by (simp add: p_def n)
  have "(1::rat) \<le> of_int r" "(of_int r :: rat) \<le> 499" using r by simp_all
  then have p_lo: "of_int (5 * j) + 1 / 100 \<le> p" and p_hi: "p \<le> of_int (5 * j) + 5 - 1 / 100"
    unfolding pjr by simp_all
  have j0: "(0::rat) \<le> of_int (5 * j)" using j by simp
  have p100: "1 / 100 \<le> p" using p_lo j0 by linarith
  have pb: "p < 2 ^ 47"
  proof -
    have "(of_int n :: rat) < of_int (100 * 2 ^ 47)" using nb by (simp only: of_int_less_iff)
    then show ?thesis by (simp add: p_def)
  qed
  have r1: "2 powi (- 1022) \<le> p" using powi_m1022_le p100 by linarith
  have r2: "p < 2 powi 1023" using big_lt_powi_1023[of p] pb by simp
  obtain e m where x: "fl p = Finite (of_int m * 2 powi (e - 52))"
    and lo: "2 powi e \<le> p" and hi: "p < 2 powi (e + 1)"
    and err: "\<bar>of_int m * 2 powi (e - 52) - p\<bar> \<le> 2 powi (e - 52) / 2"
    and up: "of_int m * 2 powi (e - 52) \<le> (2::rat) powi (e + 1)"
    using fl_grid_bounds[OF r1 r2] by metis
  define g :: rat where "g = 2 powi (e - 52)"
  define x :: rat where "x = of_int m * g"
  have g0: "0 < g" by (simp add: g_def)
  have "(2::rat) powi e < 2 powi 47" using lo pb by simp
  then have e47: "e < 47" by (rule powi_less_cancel)
  have "g \<le> 2 powi (- 6)" unfolding g_def using e47 by (intro power_int_increasing) auto
  then have g64: "g \<le> 1 / 64" by simp
  have "(2::rat) powi (- 7) < 2 powi (e + 1)" using p100 hi by simp
  then have e7: "- 7 \<le> e" using powi_less_cancel[of "- 7" "e + 1"] by simp
  have "2 powi (- 59) \<le> g" unfolding g_def using e7 by (intro power_int_increasing) auto
  then have gmin: "1 / 2 ^ 59 \<le> g" by (simp add: power_int_minus_divide)
  have gpow: "(2::rat) powi (e + 1) = 2 ^ 53 * g" by (simp add: g_def power_int_diff power_int_add)
  have gpow': "(2::rat) powi (e - 1) = 2 ^ 51 * g" by (simp add: g_def power_int_diff power_int_add)
  have err': "\<bar>x - p\<bar> \<le> g / 2" using err by (simp add: x_def g_def)
  have x_up: "x \<le> 2 ^ 53 * g" using up gpow by (simp add: x_def g_def)
  have x_gt: "of_int (5 * j) < x" using err' p_lo g64 by linarith
  have "x < of_int (5 * j) + 5" using err' p_hi g64 by linarith
  then have x_lt: "x < of_int (5 * j + 5)" by simp
  define N1 where "N1 = 5 * j * 2 ^ nat (52 - e)"
  define N2 where "N2 = (5 * j + 5) * 2 ^ nat (52 - e)"
  have grid1: "(of_int (5 * j) :: rat) = of_int N1 * g"
    unfolding g_def N1_def using int_on_grid[of e "5 * j"] e47 by simp
  have grid2: "(of_int (5 * j + 5) :: rat) = of_int N2 * g"
    unfolding g_def N2_def using int_on_grid[of e "5 * j + 5"] e47 by simp
  have "of_int N1 * g < of_int m * g" using x_gt unfolding grid1 x_def .
  then have "of_int N1 * g + g \<le> of_int m * g" by (rule grid_less_step[OF g0])
  then have B1: "of_int (5 * j) + g \<le> x" unfolding grid1 x_def .
  have "of_int m * g < of_int N2 * g" using x_lt unfolding grid2 x_def .
  then have "of_int m * g + g \<le> of_int N2 * g" by (rule grid_less_step[OF g0])
  then have B2: "x + g \<le> of_int (5 * j + 5)" unfolding grid2 x_def .
  have xpos: "0 < x" using x_gt j0 by linarith
  define z :: rat where "z = x * fifth"
  have z: "z = x / 5 + x / 5 * (1 / 2 ^ 54)" unfolding z_def by (rule fifth_eq)
  have z_lo: "of_int j + g / 5 \<le> z" using B1 xpos by (simp add: z)
  have z_hi: "z \<le> of_int j + 1 - g / 10" using B2 x_up by (simp add: z)
  have z_lt: "z < 2 ^ 51 * g" using x_up g0 by (simp add: z)
  have j0': "(0::rat) \<le> of_int j" using j by simp
  have s1: "2 powi (- 1022) \<le> z"
  proof -
    have "(2::rat) powi (- 1022) \<le> 2 powi (- 62)" by (intro power_int_increasing) auto
    also have "\<dots> \<le> g / 5" using gmin by (simp add: power_int_minus_divide)
    finally show ?thesis using z_lo j0' by linarith
  qed
  have s2: "z < 2 powi 1023"
  proof -
    have "z < 2 powi (e - 1)" using z_lt gpow' by simp
    also have "\<dots> \<le> 2 powi 1023" using e47 by (intro power_int_increasing) auto
    finally show ?thesis .
  qed
  obtain ez mz where y: "fl z = Finite (of_int mz * 2 powi (ez - 52))"
    and zlo: "2 powi ez \<le> z" and mz: "mz = round_half_even (z / 2 powi (ez - 52))"
    using fl_grid[OF s1 s2] by metis
  define h :: rat where "h = 2 powi (ez - 52)"
  have h0: "0 < h" by (simp add: h_def)
  have "(2::rat) powi ez < 2 powi (e - 1)" using zlo z_lt gpow' by simp
  then have ez: "ez \<le> e - 2" using powi_less_cancel[of ez "e - 1"] by simp
  have "h \<le> 2 powi (e - 54)" unfolding h_def using ez by (intro power_int_increasing) auto
  also have "\<dots> = g / 4" by (simp add: g_def power_int_diff)
  finally have hg: "h \<le> g / 4" .
  define M1 where "M1 = j * 2 ^ nat (52 - ez)"
  define M2 where "M2 = (j + 1) * 2 ^ nat (52 - ez)"
  have gridj: "(of_int j :: rat) = of_int M1 * h"
    unfolding h_def M1_def using int_on_grid[of ez j] ez e47 by simp
  have gridj1: "(of_int (j + 1) :: rat) = of_int M2 * h"
    unfolding h_def M2_def using int_on_grid[of ez "j + 1"] ez e47 by simp
  have "of_int M1 * h + h / 2 < z" using z_lo hg g0 unfolding gridj by linarith
  then have "(of_int M1 + 1 / 2) * h < z" by (simp add: distrib_right)
  then have "of_int M1 + 1 / 2 < z / h" using h0 by (simp add: pos_less_divide_eq)
  then have "M1 + 1 \<le> mz" unfolding mz h_def by (rule round_half_even_gt)
  then have "(of_int (M1 + 1) :: rat) \<le> of_int mz" by (simp only: of_int_le_iff)
  then have "of_int (M1 + 1) * h \<le> of_int mz * h"
    using h0 by (simp only: mult_right_mono less_imp_le)
  then have "of_int M1 * h + h \<le> of_int mz * h" by (simp add: distrib_right)
  then have y_lo: "of_int j < of_int mz * h" using h0 unfolding gridj by linarith
  have "z \<le> of_int (j + 1)" using z_hi g0 by simp
  then have "z \<le> of_int M2 * h" unfolding gridj1 .
  then have "z / h \<le> of_int M2" using h0 by (simp add: pos_divide_le_eq)
  then have "mz \<le> M2" unfolding mz h_def by (rule round_half_even_le)
  then have "(of_int mz :: rat) \<le> of_int M2" by (simp only: of_int_le_iff)
  then have "of_int mz * h \<le> of_int M2 * h"
    using h0 by (simp only: mult_right_mono less_imp_le)
  then have "of_int mz * h \<le> of_int (j + 1)" unfolding gridj1 .
  then have y_hi: "of_int mz * h \<le> of_int j + 1" by simp
  show ?thesis
    using that[of x "of_int mz * h"] x y y_lo y_hi
    by (simp add: p_def x_def g_def z_def h_def)
qed

lemma POINTS_ITEM_DESCRIPTION_eq: "POINTS_ITEM_DESCRIPTION = Finite fifth"
  by (simp add: POINTS_ITEM_DESCRIPTION_def fl_fifth)

lemma ceil_times_fifth:
  assumes "0 \<le> n" "n < 100 * 2 ^ 47"
  shows "math_ceil (float_mul (fl (of_int n / 100)) POINTS_ITEM_DESCRIPTION)
           = Inr \<lceil>(of_int n :: rat) / 100 * (1 / 5)\<rceil>"
proof -
  define j where "j = n div 500"
  define r where "r = n mod 500"
  have n: "n = 500 * j + r" by (simp add: j_def r_def)
  have r: "0 \<le> r" "r \<le> 499" by (simp_all add: r_def) 
  have j0: "0 \<le> j" using assms(1) by (simp add: j_def pos_imp_zdiv_nonneg_iff)
  have j45: "j < 2 ^ 45" using assms(2) by (simp add: j_def)
  have t: "(of_int n :: rat) / 100 * (1 / 5) = of_int j + of_int r / 500" by (simp add: n)
  show ?thesis
  proof (cases "r = 0")
    case True
    have c: "\<lceil>(of_int n :: rat) / 100 * (1 / 5)\<rceil> = j" unfolding t True by simp
    have p: "(of_int n :: rat) / 100 = of_int (5 * j)" by (simp add: n True)
    show ?thesis
    proof (cases "j = 0")
      case True
      then show ?thesis
        unfolding c p by (simp add: POINTS_ITEM_DESCRIPTION_eq float_mul_def math_ceil_def)
    next
      case False
      then have j1: "1 \<le> j" using j0 by simp
      have "(1::rat) \<le> of_int (5 * j)" using j1 by simp
      then have a: "2 powi (- 1022) \<le> (of_int (5 * j) :: rat)" using powi_m1022_le by linarith
      have "(of_int (5 * j) :: rat) < of_int (2 ^ 48)" using j45 by (simp only: of_int_less_iff) simp
      then have b: "(of_int (5 * j) :: rat) < 2 ^ 48" by simp
      have b1: "(of_int (5 * j) :: rat) < 2 powi 1023"
      proof -
        have "(2::rat) powi 48 < 2 powi 1023" by (intro power_int_strict_increasing) auto
        with b show ?thesis by simp
      qed
      have b2: "(of_int (5 * j) :: rat) < 2 powi (0 + 53)" using b by simp
      have x: "fl (of_int (5 * j)) = Finite (of_int (5 * j))"
        using fl_exact[OF a b1 _ b2, of "5 * j"] by simp
      show ?thesis
        unfolding c p x POINTS_ITEM_DESCRIPTION_eq
        using fl_times_fifth_exact[OF j1 j45] by (simp add: float_mul_def math_ceil_def)
    qed
  next
    case False
    then have r1: "1 \<le> r" using r by simp
    obtain x y where x: "fl (of_int n / 100) = Finite x" and y: "fl (x * fifth) = Finite y"
      and lo: "of_int j < y" and hi: "y \<le> of_int j + 1"
      using fl_times_fifth_inexact[OF n r1 r(2) j0 assms(2)] by metis
    have cy: "\<lceil>y\<rceil> = j + 1" using lo hi by (intro ceiling_unique) simp_all
    have "(1::rat) \<le> of_int r" "(of_int r :: rat) \<le> 499" using r1 r(2) by simp_all
    then have "(0::rat) < of_int r / 500" "(of_int r :: rat) / 500 < 1" by simp_all
    then have "\<lceil>(of_int j :: rat) + of_int r / 500\<rceil> = j + 1"
      by (intro ceiling_unique) simp_all
    then show ?thesis
      unfolding t x POINTS_ITEM_DESCRIPTION_eq using y cy
      by (simp add: float_mul_def math_ceil_def)
  qed
qed

lemma str_field_Some: "str_field item k = Some s \<Longrightarrow> subscript item k = Inr (JStr s)"
  by (simp add: str_field_def split: sum.splits json.splits)

lemma valid_itemE:
  assumes "valid_item item"
  obtains d p where "subscript item ''shortDescription'' = Inr (JStr d)"
    "subscript item ''price'' = Inr (JStr p)" "re_match_description d" "money_shape p"
    "item_description item = d" "item_price item = p"
proof -
  from assms obtain d p where d: "str_field item ''shortDescription'' = Some d"
    and p: "str_field item ''price'' = Some p"
    and *: "re_match_description d" "money_shape p"
    unfolding valid_item_def by (auto split: option.splits)
  show ?thesis
    using that[OF str_field_Some[OF d] str_field_Some[OF p] *]
    by (simp add: item_description_def item_price_def d p)
qed

lemma score_item_valid:
  assumes "valid_item item" "exact_cents (item_price item) < 100 * 2 ^ 47"
  shows "score_item item = Inr (exact_item_points item)"
proof -
  from assms(1) obtain d p where d: "subscript item ''shortDescription'' = Inr (JStr d)"
    and p: "subscript item ''price'' = Inr (JStr p)"
    and rd: "re_match_description d" and mp: "money_shape p"
    and id: "item_description item = d" and ip: "item_price item = p"
    by (rule valid_itemE)
  have v: "validate_item (JStr d) (JStr p) = Inr ()"
    using rd money_shape_re_match[OF mp]
    by (simp add: validate_item_def and_then_def re_match_def)
  have c: "math_ceil (float_mul (float_of_str p) POINTS_ITEM_DESCRIPTION)
             = Inr \<lceil>(of_int (exact_cents p) :: rat) / 100 * (1 / 5)\<rceil>"
    unfolding float_of_str_money[OF mp]
    using ceil_times_fifth[OF exact_cents_nonneg[OF mp]] assms(2) ip by simp
  show ?thesis
    unfolding score_item_def d p and_then_def
    by (simp only: sum.case v the_str_def json.case c exact_item_points_def id ip
        REWARD_ITEM_DESCRIPTION_LENGTH_FACTOR_def) simp
qed

lemma score_items_loop_valid:
  assumes "\<forall>item \<in> set items. valid_item item \<and> exact_cents (item_price item) < 100 * 2 ^ 47"
  shows "score_items_loop items points = Inr (points + sum_list (map exact_item_points items))"
  using assms
proof (induction items arbitrary: points)
  case Nil
  then show ?case by simp
next
  case (Cons item items)
  then have "score_item item = Inr (exact_item_points item)" by (simp add: score_item_valid)
  then show ?case using Cons by simp
qed

lemma score_items_valid:
  assumes "\<forall>item \<in> set items. valid_item item \<and> exact_cents (item_price item) < 100 * 2 ^ 47"
  shows "score_items (JList items) = Inr (exact_items_points items)"
  using score_items_loop_valid[OF assms]
  by (simp add: score_items_def py_iter_def and_then_def exact_items_points_def
      POINTS_ITEMS_COUNT_def Let_def)

text \<open>
  Claim C4, as amended. For every list of items that pass the checks, with prices below
  \<open>2 ^ 47\<close>, \<open>score_items\<close> gives five points for every two items plus, for each item
  whose stripped description has a length divisible by three (zero included), the ceiling
  of the exact decimal price times 0.2: an integer product stays, any other is rounded
  up. The price is parsed into a binary64 float and multiplied by the float nearest to
  0.2; below \<open>2 ^ 47\<close> the two roundings never move the product across an integer.
\<close>

theorem score_items_exact_below_2_47:
  assumes "list_all (\<lambda>item. valid_item item \<and> exact_cents (item_price item) < 100 * 2 ^ 47) items"
  shows "score_items (JList items) = Inr (exact_items_points items)"
  using assms score_items_valid[of items] by (simp add: list_all_iff)

lemmas item_eval = test_item_def valid_item_def item_description_def item_price_def str_field_def
  subscript_def re_match_description_def isword_def isalnum_def isspace_def strip_def
  exact_item_points_def exact_items_points_def

lemma ceiling_49_20: "\<lceil>(49::rat) / 20\<rceil> = 3"
  by (rule ceiling_unique) simp_all

lemma ceiling_12_5: "\<lceil>(12::rat) / 5\<rceil> = 3"
  by (rule ceiling_unique) simp_all

text \<open>
  The theorem at the five items of the Target receipt.
\<close>

theorem score_items_exact_below_2_47_witness:
  "list_all (\<lambda>item. valid_item item \<and> exact_cents (item_price item) < 100 * 2 ^ 47) target_items
   \<and> score_items (JList target_items) = Inr 16"
  using score_items_exact_below_2_47[of target_items]
  by (simp add: target_items_def item_eval money_eval ceiling_49_20 ceiling_12_5)

text \<open>
  Claim C4 as stated fails from \<open>2 ^ 47\<close> on: the price 140737488355330.01 is parsed to
  the float 140737488355330, a fifth of which is an integer, so the item earns one point
  less than the ceiling of the exact product.
\<close>

theorem score_items_exact_counterexample:
  "valid_item (test_item ''abc'' ''140737488355330.01'')
   \<and> exact_items_points [test_item ''abc'' ''140737488355330.01''] = 28147497671067
   \<and> score_items (JList [test_item ''abc'' ''140737488355330.01'']) = Inr 28147497671066"
proof -
  have ms: "money_shape ''140737488355330.01''" by (simp add: money_eval)
  have c: "exact_cents ''140737488355330.01'' = 14073748835533001" by (simp add: money_eval)
  have f: "float_of_str ''140737488355330.01'' = Finite (of_int (5 * 28147497671066))"
    unfolding float_of_str_money[OF ms] c
    using fl_eval[of 47 "14073748835533001 / 100" 4503599627370560] by simp
  have m: "float_mul (float_of_str ''140737488355330.01'') POINTS_ITEM_DESCRIPTION
             = Finite (of_int 28147497671066)"
    unfolding f POINTS_ITEM_DESCRIPTION_eq float_mul_def
    using fl_times_fifth_exact[of 28147497671066] by simp
  have v: "valid_item (test_item ''abc'' ''140737488355330.01'')"
    using ms by (simp add: item_eval)
  have e: "\<lceil>(14073748835533001::rat) / 500\<rceil> = 28147497671067"
    by (rule ceiling_unique) simp_all
  have x: "exact_items_points [test_item ''abc'' ''140737488355330.01''] = 28147497671067"
    using c e by (simp add: item_eval)
  have s: "score_items (JList [test_item ''abc'' ''140737488355330.01'']) = Inr 28147497671066"
    using m money_shape_re_match[OF ms]
    by (simp add: score_items_def py_iter_def and_then_def score_item_def item_eval
        validate_item_def re_match_def the_str_def math_ceil_def POINTS_ITEMS_COUNT_def
        REWARD_ITEM_DESCRIPTION_LENGTH_FACTOR_def)
  show ?thesis using v x s by simp
qed

section \<open>The example receipts\<close>

lemmas structure_eval = validate_receipt_json_structure_def required_receipt_attributes_def
  required_item_attributes_def and_then_def subscript_def isinstance_str_def
  isinstance_list_def isinstance_dict_def py_iter_def test_item_def

lemmas retailer_eval = score_retailer_def validate_retailer_name_def and_then_def re_match_def
  re_match_nonspace_def isspace_def the_str_def isalnum_def
  POINTS_RETAILER_NAME_ALPHANUM_CHARACTER_def

lemmas date_time_eval = score_date_time_def validate_and_parse_date_time_def and_then_def
  strptime_date_def strptime_time_def directive_Y_def directive_m_def directive_d_def
  directive_H_def directive_M_def literal_def two_chars_def one_char_def in_range_def
  isdecimal_def isspace_def digits_value_def days_in_month_def is_leap_def
  POINTS_ODD_PURCHASE_DAY_def POINTS_VALID_PURCHASE_HOUR_def REWARD_HOUR_START_def
  REWARD_HOUR_END_def

lemma target_structure: "validate_receipt_json_structure target_receipt = Inr ()"
  by (simp add: target_receipt_def target_items_def structure_eval)

lemma target_retailer: "score_retailer (JStr ''Target'') = Inr 6"
  by (simp add: retailer_eval)

lemma target_total: "score_total (JStr ''35.35'') = Inr 0"
  using score_total_of_cents[of "''35.35''" 3535] by (simp add: money_eval)

lemma target_items_points: "score_items (JList target_items) = Inr 16"
  using score_items_valid[of target_items]
  by (simp add: target_items_def item_eval money_eval ceiling_49_20 ceiling_12_5)

lemma target_date_time: "score_date_time (JStr ''2022-01-01'') (JStr ''13:01'') = Inr 6"
  by (simp add: date_time_eval)

lemma target_points: "calculate_points target_receipt = Inr 28"
  unfolding calculate_points_def
  by (simp add: target_receipt_def subscript_def and_then_def target_retailer target_total
      target_items_points target_date_time)

lemma corner_market_structure: "validate_receipt_json_structure corner_market_receipt = Inr ()"
  by (simp add: corner_market_receipt_def corner_market_items_def structure_eval)

lemma corner_market_retailer: "score_retailer (JStr ''M&M Corner Market'') = Inr 14"
  by (simp add: retailer_eval)

lemma corner_market_total: "score_total (JStr ''9.00'') = Inr 75"
  using score_total_of_cents[of "''9.00''" 900] by (simp add: money_eval)

lemma corner_market_items_points: "score_items (JList corner_market_items) = Inr 10"
  using score_items_valid[of corner_market_items]
  by (simp add: corner_market_items_def item_eval money_eval)

lemma corner_market_date_time: "score_date_time (JStr ''2022-03-20'') (JStr ''14:33'') = Inr 10"
  by (simp add: date_time_eval)

lemma corner_market_points: "calculate_points corner_market_receipt = Inr 109"
  unfolding calculate_points_def
  by (simp add: corner_market_receipt_def subscript_def and_then_def corner_market_retailer
      corner_market_total corner_market_items_points corner_market_date_time)

text \<open>
  Claim C1. The Target receipt with five items passes the validation and scores 28
  points; the M&M Corner Market receipt with four items passes and scores 109 points.
\<close>

theorem example_receipts_points:
  "validate_receipt_json_structure target_receipt = Inr ()
   \<and> calculate_points target_receipt = Inr 28
   \<and> validate_receipt_json_structure corner_market_receipt = Inr ()
   \<and> calculate_points corner_market_receipt = Inr 109"
  by (simp add: target_structure target_points corner_market_structure corner_market_points)

section \<open>The store\<close>

lemma process_receipt_cases:
  "process_receipt receipt_id receipt receipts =
     (case validate_and_score receipt of
        Inr points \<Rightarrow> (Ok_id receipt_id, receipts(receipt_id \<mapsto> points))
      | Inl (ValueError msg) \<Rightarrow> (Bad_request msg, receipts)
      | Inl e \<Rightarrow> (Uncaught e, receipts))"
  by (simp add: process_receipt_def)

lemma process_receipt_rejected:
  "validate_and_score receipt = Inl e \<Longrightarrow> snd (process_receipt receipt_id receipt receipts) = receipts"
  by (cases e) (simp_all add: process_receipt_def)

lemma process_receipt_accepted:
  "validate_and_score receipt = Inr points \<Longrightarrow>
     process_receipt receipt_id receipt receipts = (Ok_id receipt_id, receipts(receipt_id \<mapsto> points))"
  by (simp add: process_receipt_def)

lemma dom_serve:
  "dom (snd (serve r receipts)) =
     dom receipts \<union> (case r of Submit i receipt \<Rightarrow> if accepted receipt then {i} else {}
                        | Retrieve _ \<Rightarrow> {})"
proof (cases r)
  case (Submit i receipt)
  show ?thesis
  proof (cases "validate_and_score receipt")
    case (Inl e)
    then show ?thesis using Submit process_receipt_rejected[OF Inl] by (simp add: accepted_def)
  next
    case (Inr points)
    then show ?thesis using Submit process_receipt_accepted[OF Inr] by (simp add: accepted_def)
  qed
next
  case (Retrieve i)
  then show ?thesis by (simp add: get_points_def split: option.splits)
qed

lemma dom_run:
  "dom (run requests receipts) =
     dom receipts \<union> {i. \<exists>receipt. Submit i receipt \<in> set requests \<and> accepted receipt}"
proof (induction requests arbitrary: receipts)
  case Nil
  then show ?case by simp
next
  case (Cons r requests)
  show ?case
    unfolding run.simps Cons.IH dom_serve
    by (cases r) (auto split: if_splits)
qed



text \<open>
  The assignment to \<open>receipts\<close> comes after \<open>calculate_points\<close> has returned. A submission
  that fails with a ValueError is answered by a 400 response carrying its message;
  whatever the exception, nothing is inserted. Hence after any run that started with the
  empty store, the ids in the store are those of the submissions that were validated and
  scored.
\<close>

lemma failed_submission_leaves_store:
  "(validate_and_score receipt = Inl (ValueError msg) \<longrightarrow>
      process_receipt receipt_id receipt receipts = (Bad_request msg, receipts))
   \<and> (validate_and_score receipt = Inl e \<longrightarrow>
      snd (process_receipt receipt_id receipt receipts) = receipts)
   \<and> dom (run requests Map.empty)
       = {i. \<exists>receipt. Submit i receipt \<in> set requests \<and> accepted receipt}"
  using process_receipt_rejected[of receipt e receipt_id receipts]
  by (simp add: process_receipt_cases dom_run)


lemma target_accepted: "validate_and_score target_receipt = Inr 28"
  by (simp add: validate_and_score_def and_then_def target_structure target_points)

lemma corner_market_accepted: "validate_and_score corner_market_receipt = Inr 109"
  by (simp add: validate_and_score_def and_then_def corner_market_structure corner_market_points)

lemma blank_retailer_rejected:
  "validate_and_score blank_retailer_receipt
     = Inl (ValueError ''Error: invalid receipt retailer name (   )'')"
proof -
  have 1: "validate_receipt_json_structure blank_retailer_receipt = Inr ()"
    by (simp add: blank_retailer_receipt_def structure_eval)
  have 2: "score_retailer (JStr ''   '')
             = Inl (ValueError ''Error: invalid receipt retailer name (   )'')"
    by (simp add: retailer_eval)
  show ?thesis
    unfolding validate_and_score_def 1 calculate_points_def
    by (simp add: blank_retailer_receipt_def subscript_def and_then_def 2)
qed

text \<open>
  A receipt with a blank retailer name, followed by a valid receipt.
\<close>

lemma blank_retailer_leaves_store:
  "validate_and_score blank_retailer_receipt
     = Inl (ValueError ''Error: invalid receipt retailer name (   )'')
   \<and> process_receipt ''b7'' blank_retailer_receipt Map.empty
     = (Bad_request ''Error: invalid receipt retailer name (   )'', Map.empty)
   \<and> snd (process_receipt ''b7'' blank_retailer_receipt Map.empty) = Map.empty
   \<and> dom (run [Submit ''b7'' blank_retailer_receipt, Submit ''c8'' target_receipt] Map.empty)
     = {''c8''}"
proof -
  have a: "accepted target_receipt" "\<not> accepted blank_retailer_receipt"
    by (simp_all add: accepted_def target_accepted blank_retailer_rejected)
  have s: "{i. \<exists>receipt. Submit i receipt
            \<in> set [Submit ''b7'' blank_retailer_receipt, Submit ''c8'' target_receipt]
          \<and> accepted receipt} = {''c8''}"
    using a by auto
  note th = failed_submission_leaves_store[of blank_retailer_receipt
      "''Error: invalid receipt retailer name (   )''" "''b7''" Map.empty
      "ValueError ''Error: invalid receipt retailer name (   )''"
      "[Submit ''b7'' blank_retailer_receipt, Submit ''c8'' target_receipt]"]
  have 1: "process_receipt ''b7'' blank_retailer_receipt Map.empty
             = (Bad_request ''Error: invalid receipt retailer name (   )'', Map.empty)"
    using th blank_retailer_rejected by blast
  have 2: "dom (run [Submit ''b7'' blank_retailer_receipt, Submit ''c8'' target_receipt] Map.empty)
             = {''c8''}"
    using th s by simp
  show ?thesis unfolding 2 using blank_retailer_rejected 1 by simp
qed


section \<open>The retailer name\<close>

lemma validate_retailer_name_str:
  "validate_retailer_name (JStr s) =
     (if s \<noteq> [] \<and> \<not> isspace (hd s) then Inr ()
      else Inl (ValueError (''Error: invalid receipt retailer name ('' @ s @ '')'')))"
  by (cases s) (simp_all add: validate_retailer_name_def and_then_def re_match_def
      re_match_nonspace_def the_str_def)

text \<open>
  Claim C2 at the retailer name \<open>" Target"\<close>: it has characters that are not white
  space, and \<open>validate_retailer_name\<close> rejects it, because the pattern is matched at the
  start of the string only.
\<close>

theorem leading_space_retailer_rejected:
  "\<not> list_all isspace '' Target''
   \<and> validate_retailer_name (JStr '' Target'')
       = Inl (ValueError ''Error: invalid receipt retailer name ( Target)'')"
  by (simp add: validate_retailer_name_str isspace_def)

section \<open>Exceptions that are not caught\<close>

text \<open>
  From \<open>2 ^ 1024\<close> on a number is rounded to infinity; \<open>round\<close> then raises
  OverflowError, which is not a ValueError either.
\<close>

lemma fl_overflow:
  assumes "2 powi 1024 \<le> q"
  shows "fl q = PosInf"
proof -
  have pos: "0 < q" using assms by (rule less_le_trans[rotated]) simp
  define e where "e = ilog2 q"
  define u :: rat where "u = 2 powi (e - 52)"
  have u: "0 < u" by (simp add: u_def)
  from ilog2_bounds[OF pos] have lo: "2 powi e \<le> q" and hi: "q < 2 powi (e + 1)"
    by (auto simp: e_def)
  have "(2::rat) powi 1024 < 2 powi (e + 1)" using assms hi by simp
  then have e: "1024 \<le> e" using powi_less_cancel[of 1024 "e + 1"] by simp
  have "(2::rat) ^ 52 = 2 powi e / u" by (simp add: u_def power_int_diff[symmetric])
  also have "\<dots> \<le> q / u" using lo u by (simp add: divide_right_mono)
  finally have "of_int (2 ^ 52) \<le> q / u" by simp
  then have "2 ^ 52 \<le> round_half_even (q / u)" by (rule round_half_even_ge)
  then have "(of_int (2 ^ 52) :: rat) \<le> of_int (round_half_even (q / u))"
    by (simp only: of_int_le_iff)
  then have "of_int (2 ^ 52) * u \<le> of_int (round_half_even (q / u)) * u"
    using u by (simp only: mult_right_mono less_imp_le)
  moreover have "of_int (2 ^ 52) * u = 2 powi e" by (simp add: u_def power_int_diff)
  moreover have "(2::rat) powi 1024 \<le> 2 powi e" using e by (intro power_int_increasing) auto
  ultimately have "2 powi 1024 \<le> of_int (round_half_even (q / u)) * u" by simp
  then show ?thesis
    using pos e unfolding fl_def Let_def u_def e_def by (simp add: max_def)
qed

lemma huge_total_overflow:
  "re_match_money huge_total \<and> score_total (JStr huge_total) = Inl OverflowError"
proof -
  have ms: "money_shape huge_total"
    by (simp add: huge_total_def money_shape_def isdecimal_def takeWhile_append dropWhile_append)
  have "digits_value (CHR ''1'' # replicate n CHR ''0'') = 10 ^ n" for n
  proof -
    have "foldl (\<lambda>n c. 10 * n + (of_char c - 48)) (a::int) (replicate n CHR ''0'') = a * 10 ^ n" for a
      by (induction n arbitrary: a) simp_all
    then show ?thesis by (simp add: digits_value_def)
  qed
  then have c: "exact_cents huge_total = 100 * 10 ^ 309"
    by (simp add: huge_total_def exact_cents_def takeWhile_append isdecimal_def digits_value_def)
  have "(2::rat) powi 1024 \<le> 10 ^ 309" by simp
  then have "fl (of_int (exact_cents huge_total) / 100) = PosInf"
    unfolding c by (intro fl_overflow) simp
  then have f: "float_of_str huge_total = PosInf" by (simp add: float_of_str_money[OF ms])
  show ?thesis
    using money_shape_re_match[OF ms] f
    by (simp add: score_total_def validate_total_money and_then_def the_str_def py_round_def)
qed

text \<open>
  Claim C6 at a receipt whose only item has no \<open>shortDescription\<close>: the lookup raises
  KeyError during the structural validation; it is not a ValueError, so the route does not
  turn it into a 400 response with the message of an invalid item.
\<close>

theorem missing_item_key_uncaught:
  "process_receipt receipt_id missing_description_receipt receipts
     = (Uncaught (KeyError ''shortDescription''), receipts)"
proof -
  have "validate_receipt_json_structure missing_description_receipt
          = Inl (KeyError ''shortDescription'')"
    by (simp add: missing_description_receipt_def structure_eval)
  then show ?thesis by (simp add: process_receipt_def validate_and_score_def and_then_def)
qed

lemma missing_price_structure:
  "validate_receipt_json_structure missing_price_receipt = Inl (KeyError ''price'')"
  by (simp add: missing_price_receipt_def structure_eval)

lemma missing_price_outcome:
  "validate_and_score missing_price_receipt = Inl (KeyError ''price'')"
  by (simp add: validate_and_score_def and_then_def missing_price_structure)

text \<open>
  Claim C7 at a receipt whose only item has no \<open>price\<close>. The submission fails in the
  structural validation and is not accepted, and the store is left as it was; but the
  caller receives no 400 response, whatever the message: the lookup raises KeyError, which
  the route does not catch.
\<close>

theorem missing_item_key_not_answered_400:
  "validate_receipt_json_structure missing_price_receipt = Inl (KeyError ''price'')
   \<and> \<not> accepted missing_price_receipt
   \<and> fst (process_receipt receipt_id missing_price_receipt receipts)
       = Uncaught (KeyError ''price'')
   \<and> (\<forall>msg. fst (process_receipt receipt_id missing_price_receipt receipts) \<noteq> Bad_request msg)
   \<and> snd (process_receipt receipt_id missing_price_receipt receipts) = receipts"
  by (simp add: accepted_def process_receipt_def missing_price_outcome missing_price_structure)

section \<open>Fields that are not declared\<close>

lemma same_item_fields_checks:
  assumes "same_item_fields a b"
  shows "isinstance_dict a = isinstance_dict b"
    and "check_item_attributes required_item_attributes a
           = check_item_attributes required_item_attributes b"
    and "score_item a = score_item b"
proof -
  consider "a = b"
    | "isinstance_dict a" "isinstance_dict b"
      "subscript a ''shortDescription'' = subscript b ''shortDescription''"
      "subscript a ''price'' = subscript b ''price''"
    using assms by (auto simp: same_item_fields_def)
  then have "isinstance_dict a = isinstance_dict b
    \<and> check_item_attributes required_item_attributes a
        = check_item_attributes required_item_attributes b
    \<and> score_item a = score_item b"
  proof cases
    case 1
    then show ?thesis by simp
  next
    case 2
    have "check_item_attributes required_item_attributes a
            = check_item_attributes required_item_attributes b"
      unfolding required_item_attributes_def check_item_attributes.simps 2(3,4) by (rule refl)
    moreover have "score_item a = score_item b"
      unfolding score_item_def 2(3,4) by (rule refl)
    ultimately show ?thesis using 2(1,2) by simp
  qed
  then show "isinstance_dict a = isinstance_dict b"
    "check_item_attributes required_item_attributes a
       = check_item_attributes required_item_attributes b"
    "score_item a = score_item b"
    by simp_all
qed

lemma same_items_loops:
  assumes "list_all2 same_item_fields xs ys"
  shows "check_items xs = check_items ys"
    and "score_items_loop xs points = score_items_loop ys points"
  using assms
proof (induction xs ys arbitrary: points rule: list_all2_induct)
  case Nil
  { case 1 show ?case by simp }
  { case 2 show ?case by simp }
next
  case (Cons a xs b ys)
  { case 1 show ?case
      using Cons same_item_fields_checks[OF Cons(1)] by (simp split: sum.splits) }
  { case 2 show ?case
      using Cons same_item_fields_checks[OF Cons(1)] by (simp split: sum.splits) }
qed

lemma same_items_scores:
  assumes "same_items x y"
  shows "score_items x = score_items y"
    and "isinstance_list x = isinstance_list y"
    and "isinstance_list x \<Longrightarrow>
           and_then (py_iter x) (\<lambda>elements.
             if length elements < 1 then Inl (ValueError ''Error: receipt items list is empty'')
             else check_items elements)
         = and_then (py_iter y) (\<lambda>elements.
             if length elements < 1 then Inl (ValueError ''Error: receipt items list is empty'')
             else check_items elements)"
proof -
  consider "x = y" | xs ys where "x = JList xs" "y = JList ys" "list_all2 same_item_fields xs ys"
    using assms by (auto simp: same_items_def split: json.splits)
  then have "score_items x = score_items y \<and> isinstance_list x = isinstance_list y
    \<and> (and_then (py_iter x) (\<lambda>elements.
             if length elements < 1 then Inl (ValueError ''Error: receipt items list is empty'')
             else check_items elements)
         = and_then (py_iter y) (\<lambda>elements.
             if length elements < 1 then Inl (ValueError ''Error: receipt items list is empty'')
             else check_items elements))"
  proof cases
    case 1
    then show ?thesis by simp
  next
    case 2
    have "(xs = []) = (ys = [])" using list_all2_lengthD[OF 2(3)] by auto
    then show ?thesis
      using 2(1,2) same_items_loops[OF 2(3)] list_all2_lengthD[OF 2(3)]
      by (simp add: score_items_def py_iter_def and_then_def isinstance_list_def Let_def)
  qed
  then show "score_items x = score_items y" "isinstance_list x = isinstance_list y"
    "isinstance_list x \<Longrightarrow>
           and_then (py_iter x) (\<lambda>elements.
             if length elements < 1 then Inl (ValueError ''Error: receipt items list is empty'')
             else check_items elements)
         = and_then (py_iter y) (\<lambda>elements.
             if length elements < 1 then Inl (ValueError ''Error: receipt items list is empty'')
             else check_items elements)"
    by simp_all
qed

lemma check_receipt_attributes_cong:
  assumes "\<forall>a \<in> set attributes. (map_of r1 a = None) = (map_of r2 a = None)
             \<and> (a \<noteq> ''items'' \<longrightarrow> map_of r1 a = map_of r2 a)"
  shows "check_receipt_attributes attributes r1 = check_receipt_attributes attributes r2"
  using assms
proof (induction attributes)
  case Nil
  then show ?case by simp
next
  case (Cons a attributes)
  then have n: "(map_of r1 a = None) = (map_of r2 a = None)"
    and v: "a \<noteq> ''items'' \<Longrightarrow> map_of r1 a = map_of r2 a"
    and ih: "check_receipt_attributes attributes r1 = check_receipt_attributes attributes r2"
    by simp_all
  show ?case
  proof (cases "a = ''items''")
    case True
    then show ?thesis using n ih by (cases "map_of r1 a"; cases "map_of r2 a") simp_all
  next
    case False
    then show ?thesis using v ih by (cases "map_of r2 a") simp_all
  qed
qed

lemma same_declared_fields_attributes:
  assumes "same_declared_fields r1 r2"
  shows "check_receipt_attributes required_receipt_attributes r1
           = check_receipt_attributes required_receipt_attributes r2"
proof -
  have i: "(map_of r1 ''items'' = None) = (map_of r2 ''items'' = None)"
    using assms unfolding same_declared_fields_def
    by (cases "map_of r1 ''items''"; cases "map_of r2 ''items''") simp_all
  show ?thesis
    using assms i unfolding same_declared_fields_def required_receipt_attributes_def
    by (intro check_receipt_attributes_cong) simp
qed

lemma same_declared_fields_structure:
  assumes "same_declared_fields r1 r2"
  shows "validate_receipt_json_structure r1 = validate_receipt_json_structure r2"
proof (cases "map_of r1 ''items''")
  case None
  then have "map_of r2 ''items'' = None"
    using assms unfolding same_declared_fields_def by (cases "map_of r2 ''items''") simp_all
  then show ?thesis
    using None same_declared_fields_attributes[OF assms]
    by (simp add: validate_receipt_json_structure_def subscript_def and_then_def)
next
  case (Some x)
  then obtain y where y: "map_of r2 ''items'' = Some y" and xy: "same_items x y"
    using assms unfolding same_declared_fields_def by (cases "map_of r2 ''items''") simp_all
  show ?thesis
    unfolding validate_receipt_json_structure_def same_declared_fields_attributes[OF assms]
    using Some y same_items_scores(2,3)[OF xy]
    by (cases "isinstance_list x"; cases "check_receipt_attributes required_receipt_attributes r2")
       (simp_all add: subscript_def and_then_def)
qed

lemma same_declared_fields_points:
  assumes "same_declared_fields r1 r2"
  shows "calculate_points r1 = calculate_points r2"
proof -
  have k: "subscript (JDict r1) ''retailer'' = subscript (JDict r2) ''retailer''"
    "subscript (JDict r1) ''total'' = subscript (JDict r2) ''total''"
    "subscript (JDict r1) ''purchaseDate'' = subscript (JDict r2) ''purchaseDate''"
    "subscript (JDict r1) ''purchaseTime'' = subscript (JDict r2) ''purchaseTime''"
    using assms by (simp_all add: same_declared_fields_def subscript_def)
  have i: "and_then (subscript (JDict r1) ''items'') f = and_then (subscript (JDict r2) ''items'') g"
    if "\<And>x y. same_items x y \<Longrightarrow> f x = g y" for f g :: "json \<Rightarrow> exn + int"
  proof (cases "map_of r1 ''items''")
    case None
    then have "map_of r2 ''items'' = None"
      using assms unfolding same_declared_fields_def by (cases "map_of r2 ''items''") simp_all
    then show ?thesis using None by (simp add: subscript_def and_then_def)
  next
    case (Some x)
    then obtain y where y: "map_of r2 ''items'' = Some y" and xy: "same_items x y"
      using assms unfolding same_declared_fields_def by (cases "map_of r2 ''items''") simp_all
    then show ?thesis using Some that[OF xy] by (simp add: subscript_def and_then_def)
  qed
  show ?thesis
    unfolding calculate_points_def Let_def k
    by (intro arg_cong2[where f = and_then] refl ext i) (simp add: same_items_scores(1))
qed

text \<open>
  Claim C10. Two receipt dictionaries that agree on retailer, total, purchaseDate and
  purchaseTime, and item by item on shortDescription and price, get the same outcome of
  the validation and the same outcome of the scoring: the same points, or the same
  error. Keys that are not declared, at the top level or in an item, are never read.
\<close>

theorem extra_fields_ignored:
  assumes "same_declared_fields r1 r2"
  shows "validate_receipt_json_structure r1 = validate_receipt_json_structure r2
         \<and> calculate_points r1 = calculate_points r2
         \<and> validate_and_score r1 = validate_and_score r2"
  using same_declared_fields_structure[OF assms] same_declared_fields_points[OF assms]
  by (simp add: validate_and_score_def)

text \<open>
  The theorem at the Target receipt and a copy with more keys, in another order.
\<close>

theorem extra_fields_ignored_witness:
  "same_declared_fields target_receipt target_receipt_extra
   \<and> validate_receipt_json_structure target_receipt_extra = Inr ()
   \<and> calculate_points target_receipt_extra = Inr 28"
proof -
  have s: "same_declared_fields target_receipt target_receipt_extra"
    by (simp add: same_declared_fields_def same_items_def same_item_fields_def
        target_receipt_def target_receipt_extra_def target_items_def test_item_def
        isinstance_dict_def subscript_def)
  show ?thesis
    using extra_fields_ignored[OF s] s target_structure target_points by simp
qed

section \<open>The order of the checks\<close>





lemma verdict_simps [simp]: "verdict (Inl e) = Some e" "verdict (Inr x) = None"
  by (simp_all add: verdict_def)



text \<open>
  The first violation of a list of verdicts is the exception before which every verdict is
  None.
\<close>

lemma first_violation_Some:
  "first_violation verdicts = Some e
     \<longleftrightarrow> (\<exists>before after. verdicts = before @ Some e # after \<and> list_all (\<lambda>v. v = None) before)"
proof (induction verdicts rule: first_violation.induct)
  case 1
  then show ?case by simp
next
  case (2 e' later)
  show ?case
  proof
    assume "first_violation (Some e' # later) = Some e"
    then have "Some e' # later = [] @ Some e # later \<and> list_all (\<lambda>v. v = None) []" by simp
    then show "\<exists>before after. Some e' # later = before @ Some e # after
                 \<and> list_all (\<lambda>v. v = None) before"
      by blast
  next
    assume "\<exists>before after. Some e' # later = before @ Some e # after
              \<and> list_all (\<lambda>v. v = None) before"
    then obtain before after where b: "Some e' # later = before @ Some e # after"
      "list_all (\<lambda>v. v = None) before"
      by blast
    then show "first_violation (Some e' # later) = Some e" by (cases before) auto
  qed
next
  case (3 later)
  show ?case
  proof
    assume "first_violation (None # later) = Some e"
    then obtain before after where "later = before @ Some e # after"
      "list_all (\<lambda>v. v = None) before"
      using 3 by auto
    then have "None # later = (None # before) @ Some e # after
                 \<and> list_all (\<lambda>v. v = None) (None # before)"
      by simp
    then show "\<exists>before after. None # later = before @ Some e # after
                 \<and> list_all (\<lambda>v. v = None) before"
      by blast
  next
    assume "\<exists>before after. None # later = before @ Some e # after
              \<and> list_all (\<lambda>v. v = None) before"
    then obtain before after where b: "None # later = before @ Some e # after"
      "list_all (\<lambda>v. v = None) before"
      by blast
    then obtain before' where "before = None # before'" by (cases before) auto
    then have "later = before' @ Some e # after \<and> list_all (\<lambda>v. v = None) before'"
      using b by simp
    then show "first_violation (None # later) = Some e" using 3 by auto
  qed
qed




subsection \<open>The loops as lists of verdicts\<close>










subsection \<open>The two halves of the submission\<close>

























end
